theory Spec2Isabelle
  imports Complex_Main "HOL-Library.AList"
begin

section \<open>Text and timestamps\<close>

text \<open>
  A Python \<^verbatim>\<open>str\<close> holding user-visible text is a sequence of Unicode code points, so
  message bodies, replies and context values are lists of code points. Identifiers the
  program compares only for equality (user ids, dictionary keys, role and state names,
  ISO timestamps) are plain strings.
\<close>

type_synonym ustr = "nat list"

definition ascii :: "string \<Rightarrow> ustr" where
  "ascii s = map of_char s"

text \<open>
  A naive \<^verbatim>\<open>datetime\<close> stores its calendar fields. The number of microseconds since
  0001-01-01 follows the proleptic Gregorian ordinal of the standard library; the
  difference of two of them is what \<^verbatim>\<open>(a - b).total_seconds()\<close> measures, in
  microseconds.
\<close>

record datetime =
  year :: nat
  month :: nat
  day :: nat
  hour :: nat
  minute :: nat
  second :: nat
  microsecond :: nat

definition is_leap :: "nat \<Rightarrow> bool" where
  "is_leap y = (y mod 4 = 0 \<and> (y mod 100 \<noteq> 0 \<or> y mod 400 = 0))"

definition days_in_month :: "nat \<Rightarrow> nat \<Rightarrow> nat" where
  "days_in_month y m =
     (if m = 2 then (if is_leap y then 29 else 28)
      else if m = 4 \<or> m = 6 \<or> m = 9 \<or> m = 11 then 30 else 31)"

definition valid_datetime :: "datetime \<Rightarrow> bool" where
  "valid_datetime d =
     (1 \<le> year d \<and> year d \<le> 9999 \<and> 1 \<le> month d \<and> month d \<le> 12 \<and>
      1 \<le> day d \<and> day d \<le> days_in_month (year d) (month d) \<and>
      hour d < 24 \<and> minute d < 60 \<and> second d < 60 \<and> microsecond d < 1000000)"

definition days_before_year :: "nat \<Rightarrow> nat" where
  "days_before_year y =
     (let p = y - 1 in p * 365 + p div 4 - p div 100 + p div 400)"

definition days_before_month :: "nat \<Rightarrow> nat \<Rightarrow> nat" where
  "days_before_month y m = sum_list (map (days_in_month y) [1..<m])"

definition to_micro :: "datetime \<Rightarrow> int" where
  "to_micro d =
     int ((((days_before_year (year d) + days_before_month (year d) (month d) + day d) * 24
            + hour d) * 60 + minute d) * 60 + second d) * 1000000
     + int (microsecond d)"

text \<open>
  \<^verbatim>\<open>datetime.isoformat()\<close> prints \<^verbatim>\<open>YYYY-MM-DDTHH:MM:SS\<close> and adds \<^verbatim>\<open>.ffffff\<close> only
  when the microsecond field is not zero. \<^verbatim>\<open>datetime.fromisoformat\<close> is modelled on
  these two shapes (any character is accepted as the date/time separator, and the fields
  are range checked); every other input is treated as a \<^verbatim>\<open>ValueError\<close>.
\<close>

primrec pad :: "nat \<Rightarrow> nat \<Rightarrow> string" where
  "pad 0 n = []"
| "pad (Suc w) n = pad w (n div 10) @ [char_of (48 + n mod 10)]"

definition isoformat :: "datetime \<Rightarrow> string" where
  "isoformat d =
     pad 4 (year d) @ ''-'' @ pad 2 (month d) @ ''-'' @ pad 2 (day d) @ ''T'' @
     pad 2 (hour d) @ '':'' @ pad 2 (minute d) @ '':'' @ pad 2 (second d) @
     (if microsecond d = 0 then [] else ''.'' @ pad 6 (microsecond d))"

definition digit_of :: "char \<Rightarrow> nat option" where
  "digit_of c = (let k = (of_char c :: nat) in if 48 \<le> k \<and> k \<le> 57 then Some (k - 48) else None)"

fun number_from :: "nat \<Rightarrow> string \<Rightarrow> nat option" where
  "number_from acc [] = Some acc"
| "number_from acc (c # cs) =
     (case digit_of c of None \<Rightarrow> None | Some k \<Rightarrow> number_from (acc * 10 + k) cs)"

definition field :: "nat \<Rightarrow> nat \<Rightarrow> string \<Rightarrow> nat option" where
  "field i w s = number_from 0 (take w (drop i s))"

definition fromisoformat :: "string \<Rightarrow> datetime option" where
  "fromisoformat s =
     (if (length s = 19 \<or> (length s = 26 \<and> s ! 19 = CHR ''.''))
         \<and> s ! 4 = CHR ''-'' \<and> s ! 7 = CHR ''-'' \<and> s ! 13 = CHR '':'' \<and> s ! 16 = CHR '':''
      then
        (case (field 0 4 s, field 5 2 s, field 8 2 s, field 11 2 s, field 14 2 s,
               field 17 2 s, if length s = 19 then Some 0 else field 20 6 s) of
           (Some y, Some mo, Some d, Some h, Some mi, Some sec, Some us) \<Rightarrow>
             (let dt = \<lparr>year = y, month = mo, day = d, hour = h, minute = mi,
                        second = sec, microsecond = us\<rparr>
              in if valid_datetime dt then Some dt else None)
         | _ \<Rightarrow> None)
      else None)"

section \<open>Sessions and the session manager\<close>

text \<open>
  A session is the dictionary built by \<^verbatim>\<open>get_session\<close>. The \<^verbatim>\<open>meta\<close> dictionary is
  read with \<^verbatim>\<open>.get(key, 0)\<close>, so each of its two keys may be absent. A history entry
  carries the key \<^verbatim>\<open>type\<close> only when the sweeper wrote it.
\<close>

record message =
  role :: string
  content :: ustr
  timestamp :: string
  msg_type :: "string option"

record meta_info =
  total_messages :: "int option"
  session_restarts :: "int option"

definition meta_get :: "int option \<Rightarrow> int" where
  "meta_get v = (case v of None \<Rightarrow> 0 | Some n \<Rightarrow> n)"

record session =
  created_at :: datetime
  last_activity :: datetime
  state :: string
  session_context :: "(string \<times> ustr) list"
  thread_id :: "string option"
  message_history :: "message list"
  inactivity_warning_sent :: bool
  closing_notice_sent :: bool
  meta :: meta_info

text \<open>
  The manager: the \<^verbatim>\<open>sessions\<close> dictionary in insertion order, the two thresholds in
  seconds, and the injected send function. The constructor leaves it \<^verbatim>\<open>None\<close>;
  \<^verbatim>\<open>init_whatsapp_config\<close>, the one place that builds the manager for the application,
  sets it right after to \<^verbatim>\<open>send_whatsapp_message_background\<close>, which catches its own
  exceptions and so never raises. The properties about what the sweeper sends are about
  the manager wired in this way: a send function is set. The
  calls made to the send function are recorded in \<open>outbox\<close>, and the statistics line
  logged when a session is closed in \<open>stats_log\<close>. A value of the record stands for a
  store in which no two sessions hold one list or dictionary object.
\<close>

datatype sender = Send_whatsapp_message_background

record manager =
  sessions :: "(string \<times> session) list"
  session_timeout :: int
  inactivity_warning :: int
  send_message_func :: "sender option"
  outbox :: "(string \<times> ustr) list"
  stats_log :: "(string \<times> nat) list"

definition init_manager :: "int \<Rightarrow> int \<Rightarrow> manager" where
  "init_manager timeout warning =
     \<lparr>sessions = [], session_timeout = timeout, inactivity_warning = warning,
      send_message_func = None, outbox = [], stats_log = []\<rparr>"

definition set_send_message_function :: "sender \<Rightarrow> manager \<Rightarrow> manager" where
  "set_send_message_function f m = m\<lparr>send_message_func := Some f\<rparr>"

definition new_session :: "datetime \<Rightarrow> meta_info \<Rightarrow> session" where
  "new_session now mt =
     \<lparr>created_at = now, last_activity = now, state = ''INITIAL'', session_context = [],
      thread_id = None, message_history = [], inactivity_warning_sent = False,
      closing_notice_sent = False, meta = mt\<rparr>"

definition touch :: "datetime \<Rightarrow> session \<Rightarrow> session" where
  "touch now s =
     s\<lparr>last_activity := now, inactivity_warning_sent := False, closing_notice_sent := False\<rparr>"

text \<open>
  Every operation below runs under the manager's lock; \<open>now\<close> is the clock reading
  taken inside that locked section (where the code reads the clock twice in one
  section, both readings are \<open>now\<close>).
\<close>

definition get_session :: "string \<Rightarrow> datetime \<Rightarrow> manager \<Rightarrow> manager" where
  "get_session user_id now m =
     (case map_of (sessions m) user_id of
        None \<Rightarrow>
          m\<lparr>sessions := AList.update user_id
                (new_session now \<lparr>total_messages = Some 0, session_restarts = Some 0\<rparr>)
                (sessions m)\<rparr>
      | Some s \<Rightarrow> m\<lparr>sessions := AList.update user_id (touch now s) (sessions m)\<rparr>)"

text \<open>
  \<^verbatim>\<open>update_session\<close> receives keyword arguments; a keyword that is a key of the session
  overwrites that key, any other keyword is ignored. A value given for a key is of the
  type the manager itself stores under that key.
\<close>

datatype field_update =
    Set_created_at datetime
  | Set_last_activity datetime
  | Set_state string
  | Set_context "(string \<times> ustr) list"
  | Set_thread_id "string option"
  | Set_message_history "message list"
  | Set_inactivity_warning_sent bool
  | Set_closing_notice_sent bool
  | Set_meta meta_info
  | Set_unknown string

fun apply_kwarg :: "field_update \<Rightarrow> session \<Rightarrow> session" where
  "apply_kwarg (Set_created_at v) s = s\<lparr>created_at := v\<rparr>"
| "apply_kwarg (Set_last_activity v) s = s\<lparr>last_activity := v\<rparr>"
| "apply_kwarg (Set_state v) s = s\<lparr>state := v\<rparr>"
| "apply_kwarg (Set_context v) s = s\<lparr>session_context := v\<rparr>"
| "apply_kwarg (Set_thread_id v) s = s\<lparr>thread_id := v\<rparr>"
| "apply_kwarg (Set_message_history v) s = s\<lparr>message_history := v\<rparr>"
| "apply_kwarg (Set_inactivity_warning_sent v) s = s\<lparr>inactivity_warning_sent := v\<rparr>"
| "apply_kwarg (Set_closing_notice_sent v) s = s\<lparr>closing_notice_sent := v\<rparr>"
| "apply_kwarg (Set_meta v) s = s\<lparr>meta := v\<rparr>"
| "apply_kwarg (Set_unknown k) s = s"

definition update_session :: "string \<Rightarrow> field_update list \<Rightarrow> datetime \<Rightarrow> manager \<Rightarrow> manager" where
  "update_session user_id kwargs now m =
     (case map_of (sessions m) user_id of
        None \<Rightarrow> m
      | Some s \<Rightarrow>
          m\<lparr>sessions := AList.update user_id (touch now (fold apply_kwarg kwargs s)) (sessions m)\<rparr>)"

definition restart_session :: "string \<Rightarrow> datetime \<Rightarrow> manager \<Rightarrow> manager" where
  "restart_session user_id now m =
     (case map_of (sessions m) user_id of
        None \<Rightarrow> m
      | Some s \<Rightarrow>
          (let session_restarts' = meta_get (session_restarts (meta s)) + 1
           in m\<lparr>sessions := AList.update user_id
                   (new_session now
                      \<lparr>total_messages = Some (meta_get (total_messages (meta s))),
                       session_restarts = Some session_restarts'\<rparr>)
                   (sessions m)\<rparr>))"

definition end_session :: "string \<Rightarrow> manager \<Rightarrow> manager" where
  "end_session user_id m =
     (case map_of (sessions m) user_id of
        None \<Rightarrow> m
      | Some s \<Rightarrow> m\<lparr>sessions := AList.delete user_id (sessions m)\<rparr>)"

definition is_session_active :: "string \<Rightarrow> datetime \<Rightarrow> manager \<Rightarrow> bool" where
  "is_session_active user_id now m =
     (case map_of (sessions m) user_id of
        None \<Rightarrow> False
      | Some s \<Rightarrow> to_micro now < to_micro (last_activity s) + session_timeout m * 1000000)"

definition add_message_to_history :: "string \<Rightarrow> string \<Rightarrow> ustr \<Rightarrow> datetime \<Rightarrow> manager \<Rightarrow> manager" where
  "add_message_to_history user_id rl body now m =
     (case map_of (sessions m) user_id of
        None \<Rightarrow> m
      | Some s \<Rightarrow>
          (let entry = \<lparr>role = rl, content = body, timestamp = isoformat now, msg_type = None\<rparr>;
               s1 = touch now (s\<lparr>message_history := message_history s @ [entry]\<rparr>);
               total_msgs = meta_get (total_messages (meta s1)) + 1
           in m\<lparr>sessions := AList.update user_id
                   (s1\<lparr>meta := (meta s1)\<lparr>total_messages := Some total_msgs\<rparr>\<rparr>)
                   (sessions m)\<rparr>))"

text \<open>
  A Python slice \<^verbatim>\<open>xs[i:]\<close>: a negative start counts from the end, and the start is
  clamped to the list.
\<close>

definition slice_from :: "int \<Rightarrow> 'a list \<Rightarrow> 'a list" where
  "slice_from i xs =
     (let n = int (length xs);
          j = (if i < 0 then max (n + i) 0 else min i n)
      in drop (nat j) xs)"

definition get_message_history :: "string \<Rightarrow> int \<Rightarrow> manager \<Rightarrow> message list" where
  "get_message_history user_id limit m =
     (case map_of (sessions m) user_id of
        Some s \<Rightarrow> slice_from (- limit) (message_history s)
      | None \<Rightarrow> [])"

section \<open>The expiration sweeper\<close>

text \<open>
  The two notices. \<^verbatim>\<open>remaining_minutes\<close> is an integer floor division, printed in
  decimal inside the warning.
\<close>

fun decimal :: "nat \<Rightarrow> ustr" where
  "decimal n = (if n < 10 then [48 + n] else decimal (n div 10) @ [48 + n mod 10])"

definition str_int :: "int \<Rightarrow> ustr" where
  "str_int i = (if i < 0 then 45 # decimal (nat (- i)) else decimal (nat i))"

definition warning_message :: "manager \<Rightarrow> ustr" where
  "warning_message m =
     (let remaining_minutes = (session_timeout m - inactivity_warning m) div 60
      in [191] @ ascii ''Sigues ah'' @ [237] @ ascii ''? Tu sesi'' @ [243] @ ascii ''n se cerrar''
         @ [225] @ ascii '' por inactividad en '' @ str_int remaining_minutes
         @ ascii '' minutos.'')"

definition closing_message :: ustr where
  "closing_message =
     ascii ''Tu sesi'' @ [243] @ ascii ''n ha sido cerrada debido a inactividad. ''
     @ ascii ''Puedes iniciar una nueva conversaci'' @ [243] @ ascii ''n cuando lo necesites.''"

definition system_notice :: "ustr \<Rightarrow> datetime \<Rightarrow> message" where
  "system_notice body now =
     \<lparr>role = ''assistant'', content = body, timestamp = isoformat now,
      msg_type = Some ''system''\<rparr>"

text \<open>
  A call of the injected send function, guarded by \<^verbatim>\<open>if self.send_message_func\<close>.
\<close>

definition notify :: "string \<Rightarrow> ustr \<Rightarrow> manager \<Rightarrow> manager" where
  "notify user_id body m =
     (case send_message_func m of
        None \<Rightarrow> m
      | Some f \<Rightarrow> m\<lparr>outbox := outbox m @ [(user_id, body)]\<rparr>)"

text \<open>
  Both notices run the same two steps: the guarded send, then, under the lock, the
  append of a system-tagged entry when the user still has a session.
\<close>

definition deliver_notice :: "string \<Rightarrow> ustr \<Rightarrow> datetime \<Rightarrow> manager \<Rightarrow> manager" where
  "deliver_notice user_id body now m =
     (let m1 = notify user_id body m
      in case map_of (sessions m1) user_id of
           None \<Rightarrow> m1
         | Some s \<Rightarrow>
             m1\<lparr>sessions := AList.update user_id
                   (s\<lparr>message_history := message_history s @ [system_notice body now]\<rparr>)
                   (sessions m1)\<rparr>)"

definition send_inactivity_warning :: "string \<Rightarrow> datetime \<Rightarrow> manager \<Rightarrow> manager" where
  "send_inactivity_warning user_id now m = deliver_notice user_id (warning_message m) now m"

text \<open>
  Closing goes on, in the same locked block as the append, to log the length of the
  history and to delete the session.
\<close>

definition discard_session :: "string \<Rightarrow> manager \<Rightarrow> manager" where
  "discard_session user_id m =
     (case map_of (sessions m) user_id of
        None \<Rightarrow> m
      | Some s \<Rightarrow>
          (let total = length (message_history s)
           in m\<lparr>sessions := AList.delete user_id (sessions m),
                 stats_log := stats_log m @ [(user_id, total)]\<rparr>))"

definition close_inactive_session :: "string \<Rightarrow> datetime \<Rightarrow> manager \<Rightarrow> manager" where
  "close_inactive_session user_id now m =
     discard_session user_id (deliver_notice user_id closing_message now m)"

text \<open>
  \<^verbatim>\<open>inactive_time\<close> is \<^verbatim>\<open>(current_time - session['last_activity']).total_seconds()\<close>:
  the microseconds of the difference divided by \<^verbatim>\<open>10**6\<close>, as a float. How the
  interpreter rounds that quotient is not part of the repository, so the function from
  the microseconds to the float is a parameter \<open>total_seconds\<close> of the sweeper, and every
  property of the sweeper holds whatever that function is. The float is compared with the
  two thresholds, which are integers, exactly.
\<close>

definition inactive_time :: "(int \<Rightarrow> real) \<Rightarrow> datetime \<Rightarrow> session \<Rightarrow> real" where
  "inactive_time total_seconds current_time s =
     total_seconds (to_micro current_time - to_micro (last_activity s))"

text \<open>
  The scan under the lock: it sets the flag of every session it collects and returns the
  sessions with \<^verbatim>\<open>users_to_warn\<close> and \<^verbatim>\<open>users_to_close\<close>, in dictionary order.
\<close>

fun scan_sessions ::
  "(int \<Rightarrow> real) \<Rightarrow> int \<Rightarrow> int \<Rightarrow> datetime \<Rightarrow> (string \<times> session) list
     \<Rightarrow> (string \<times> session) list \<times> string list \<times> string list" where
  "scan_sessions total_seconds timeout warning current_time [] = ([], [], [])"
| "scan_sessions total_seconds timeout warning current_time ((user_id, s) # rest) =
     (case scan_sessions total_seconds timeout warning current_time rest of
        (ss, users_to_warn, users_to_close) \<Rightarrow>
          if real_of_int timeout \<le> inactive_time total_seconds current_time s
             \<and> \<not> closing_notice_sent s
          then ((user_id, s\<lparr>closing_notice_sent := True\<rparr>) # ss, users_to_warn,
                user_id # users_to_close)
          else if real_of_int warning \<le> inactive_time total_seconds current_time s
                  \<and> \<not> inactivity_warning_sent s
          then ((user_id, s\<lparr>inactivity_warning_sent := True\<rparr>) # ss, user_id # users_to_warn,
                users_to_close)
          else ((user_id, s) # ss, users_to_warn, users_to_close))"

text \<open>
  The two conditions of the scan, in the order the \<^verbatim>\<open>if\<close>/\<^verbatim>\<open>elif\<close> tests them, and
  the flag each one sets.
\<close>

definition due_close :: "(int \<Rightarrow> real) \<Rightarrow> int \<Rightarrow> datetime \<Rightarrow> session \<Rightarrow> bool" where
  "due_close total_seconds timeout current_time s =
     (real_of_int timeout \<le> inactive_time total_seconds current_time s
      \<and> \<not> closing_notice_sent s)"

definition due_warning ::
  "(int \<Rightarrow> real) \<Rightarrow> int \<Rightarrow> int \<Rightarrow> datetime \<Rightarrow> session \<Rightarrow> bool" where
  "due_warning total_seconds timeout warning current_time s =
     (\<not> due_close total_seconds timeout current_time s
      \<and> real_of_int warning \<le> inactive_time total_seconds current_time s
      \<and> \<not> inactivity_warning_sent s)"

definition marked ::
  "(int \<Rightarrow> real) \<Rightarrow> int \<Rightarrow> int \<Rightarrow> datetime \<Rightarrow> session \<Rightarrow> session" where
  "marked total_seconds timeout warning current_time s =
     (if due_close total_seconds timeout current_time s then s\<lparr>closing_notice_sent := True\<rparr>
      else if due_warning total_seconds timeout warning current_time s
      then s\<lparr>inactivity_warning_sent := True\<rparr>
      else s)"

text \<open>
  One pass of the loop body of \<^verbatim>\<open>_cleanup_expired_sessions\<close>, run without interleaving:
  the scan at \<open>current_time\<close>, then the warnings, then the closures. \<open>notice_time u\<close> is
  the clock reading stamped on the notice recorded for \<open>u\<close>. The periodic save that ends
  the pass writes a file and leaves the manager as it is.
\<close>

definition cleanup_tick ::
  "(int \<Rightarrow> real) \<Rightarrow> datetime \<Rightarrow> (string \<Rightarrow> datetime) \<Rightarrow> manager \<Rightarrow> manager" where
  "cleanup_tick total_seconds current_time notice_time m =
     (case scan_sessions total_seconds (session_timeout m) (inactivity_warning m) current_time
             (sessions m) of
        (ss, users_to_warn, users_to_close) \<Rightarrow>
          fold (\<lambda>u. close_inactive_session u (notice_time u)) users_to_close
            (fold (\<lambda>u. send_inactivity_warning u (notice_time u)) users_to_warn
               (m\<lparr>sessions := ss\<rparr>)))"

fun cleanup_ticks ::
  "(int \<Rightarrow> real) \<Rightarrow> (datetime \<times> (string \<Rightarrow> datetime)) list \<Rightarrow> manager \<Rightarrow> manager" where
  "cleanup_ticks total_seconds [] m = m"
| "cleanup_ticks total_seconds ((current_time, notice_time) # rest) m =
     cleanup_ticks total_seconds rest (cleanup_tick total_seconds current_time notice_time m)"

definition auto_save_due :: "datetime \<Rightarrow> bool" where
  "auto_save_due current_time = (minute current_time mod 5 = 0 \<and> second current_time < 30)"

text \<open>The messages handed to the send function for one user since an earlier state.\<close>

definition sent_to :: "string \<Rightarrow> manager \<Rightarrow> manager \<Rightarrow> ustr list" where
  "sent_to user_id before after =
     map snd (filter (\<lambda>e. fst e = user_id) (drop (length (outbox before)) (outbox after)))"

text \<open>The statistics lines logged for one user since an earlier state.\<close>

definition stats_for :: "string \<Rightarrow> manager \<Rightarrow> manager \<Rightarrow> nat list" where
  "stats_for user_id before after =
     map snd (filter (\<lambda>e. fst e = user_id) (drop (length (stats_log before)) (stats_log after)))"

section \<open>Snapshots\<close>

text \<open>
  \<^verbatim>\<open>save_sessions\<close> builds one JSON object per user, with the two timestamps in ISO
  format, and hands the mapping to \<^verbatim>\<open>json.dump\<close>; \<open>save_sessions\<close> below is that mapping.
  \<^verbatim>\<open>load_sessions\<close> receives what \<^verbatim>\<open>json.load\<close> returns. A record of a file may lack
  the two flags and \<^verbatim>\<open>meta\<close> (they are defaulted) or a timestamp (a \<^verbatim>\<open>KeyError\<close>); the
  remaining keys are written by every version of the manager and are taken as present.
\<close>

record stored_session =
  json_created_at :: "string option"
  json_last_activity :: "string option"
  json_state :: string
  json_context :: "(string \<times> ustr) list"
  json_thread_id :: "string option"
  json_message_history :: "message list"
  json_inactivity_warning_sent :: "bool option"
  json_closing_notice_sent :: "bool option"
  json_meta :: "meta_info option"

definition serializable_session :: "session \<Rightarrow> stored_session" where
  "serializable_session s =
     \<lparr>json_created_at = Some (isoformat (created_at s)),
      json_last_activity = Some (isoformat (last_activity s)),
      json_state = state s, json_context = session_context s,
      json_thread_id = thread_id s, json_message_history = message_history s,
      json_inactivity_warning_sent = Some (inactivity_warning_sent s),
      json_closing_notice_sent = Some (closing_notice_sent s),
      json_meta = Some (meta s)\<rparr>"

definition save_sessions :: "manager \<Rightarrow> (string \<times> stored_session) list" where
  "save_sessions m = map (\<lambda>(user_id, s). (user_id, serializable_session s)) (sessions m)"

datatype file_contents =
    File_not_found
  | Json_decode_error
  | Json_sessions "(string \<times> stored_session) list"

definition restore_session :: "stored_session \<Rightarrow> session option" where
  "restore_session j =
     (case json_created_at j of
        None \<Rightarrow> None
      | Some c \<Rightarrow>
          (case fromisoformat c of
             None \<Rightarrow> None
           | Some created \<Rightarrow>
               (case json_last_activity j of
                  None \<Rightarrow> None
                | Some l \<Rightarrow>
                    (case fromisoformat l of
                       None \<Rightarrow> None
                     | Some latest \<Rightarrow>
                         Some \<lparr>created_at = created, last_activity = latest,
                               state = json_state j, session_context = json_context j,
                               thread_id = json_thread_id j,
                               message_history = json_message_history j,
                               inactivity_warning_sent =
                                 (case json_inactivity_warning_sent j of
                                    None \<Rightarrow> False | Some b \<Rightarrow> b),
                               closing_notice_sent =
                                 (case json_closing_notice_sent j of
                                    None \<Rightarrow> False | Some b \<Rightarrow> b),
                               meta =
                                 (case json_meta j of
                                    None \<Rightarrow>
                                      \<lparr>total_messages =
                                          Some (int (length (json_message_history j))),
                                       session_restarts = Some 0\<rparr>
                                  | Some mt \<Rightarrow> mt)\<rparr>))))"

text \<open>
  The loop stores each restored session as it goes; an exception on one record ends the
  loop and keeps what was stored before it.
\<close>

fun load_entries ::
  "(string \<times> stored_session) list \<Rightarrow> (string \<times> session) list \<Rightarrow> (string \<times> session) list" where
  "load_entries [] ss = ss"
| "load_entries ((user_id, j) # rest) ss =
     (case restore_session j of
        None \<Rightarrow> ss
      | Some s \<Rightarrow> load_entries rest (AList.update user_id s ss))"

definition load_sessions :: "file_contents \<Rightarrow> manager \<Rightarrow> manager" where
  "load_sessions file m =
     (case file of
        File_not_found \<Rightarrow> m
      | Json_decode_error \<Rightarrow> m
      | Json_sessions loaded_sessions \<Rightarrow>
          m\<lparr>sessions := load_entries loaded_sessions (sessions m)\<rparr>)"

text \<open>
  Every timestamp a store holds is a \<^verbatim>\<open>datetime\<close> object, so its fields are in range.
\<close>

definition valid_store :: "(string \<times> session) list \<Rightarrow> bool" where
  "valid_store ss =
     list_all (\<lambda>e. valid_datetime (created_at (snd e)) \<and> valid_datetime (last_activity (snd e))) ss"

section \<open>The message router\<close>

subsection \<open>Text post-processing\<close>

text \<open>
  \<^verbatim>\<open>process_text_for_whatsapp\<close> applies four \<^verbatim>\<open>re.sub\<close> calls and one \<^verbatim>\<open>strip()\<close>. Each
  pattern is two fixed delimiters around lazy groups \<^verbatim>\<open>.*?\<close>, and \<^verbatim>\<open>.\<close> does not match a
  line feed: scanning from the left, a match starts at an opening delimiter whose closing
  delimiter follows on the same line, and ends at the first such closing delimiter.
\<close>

fun closes_on_line :: "nat \<Rightarrow> ustr \<Rightarrow> bool" where
  "closes_on_line c [] = False"
| "closes_on_line c (x # xs) =
     (if x = c then True else if x = 10 then False else closes_on_line c xs)"

text \<open>The pattern \<^verbatim>\<open>\[U+3010].*?\[U+3011]\<close>, replaced by nothing.\<close>

fun remove_brackets :: "bool \<Rightarrow> ustr \<Rightarrow> ustr" where
  "remove_brackets inside [] = []"
| "remove_brackets True (x # xs) =
     (if x = 12305 then remove_brackets False xs else remove_brackets True xs)"
| "remove_brackets False (x # xs) =
     (if x = 12304 \<and> closes_on_line 12305 xs then remove_brackets True xs
      else x # remove_brackets False xs)"

definition py_space :: "nat \<Rightarrow> bool" where
  "py_space c =
     (c \<in> set [9, 10, 11, 12, 13, 28, 29, 30, 31, 32, 133, 160, 5760, 8232, 8233, 8239, 8287, 12288]
      \<or> (8192 \<le> c \<and> c \<le> 8202))"

definition strip :: "ustr \<Rightarrow> ustr" where
  "strip s = rev (dropWhile py_space (rev (dropWhile py_space s)))"

text \<open>The pattern \<^verbatim>\<open>\*\*(.*?)\*\*\<close>, replaced by \<^verbatim>\<open>*\1*\<close>.\<close>

fun double_star_on_line :: "ustr \<Rightarrow> bool" where
  "double_star_on_line (a # b # xs) =
     (if a = 42 \<and> b = 42 then True else if a = 10 then False else double_star_on_line (b # xs))"
| "double_star_on_line xs = False"

fun bold :: "bool \<Rightarrow> ustr \<Rightarrow> ustr" where
  "bold False (a # b # xs) =
     (if a = 42 \<and> b = 42 \<and> double_star_on_line xs then 42 # bold True xs
      else a # bold False (b # xs))"
| "bold True (a # b # xs) =
     (if a = 42 \<and> b = 42 then 42 # bold False xs else a # bold True (b # xs))"
| "bold inside xs = xs"

text \<open>The pattern \<^verbatim>\<open>\[(.*?)\]\((.*?)\)\<close>, replaced by \<^verbatim>\<open>\1: \2\<close>.\<close>

fun link_on_line :: "ustr \<Rightarrow> bool" where
  "link_on_line (a # b # xs) =
     (if a = 93 \<and> b = 40 \<and> closes_on_line 41 xs then True
      else if a = 10 then False else link_on_line (b # xs))"
| "link_on_line xs = False"

datatype link_part = Outside | Label | Target

fun links :: "link_part \<Rightarrow> ustr \<Rightarrow> ustr" where
  "links Outside (x # xs) =
     (if x = 91 \<and> link_on_line xs then links Label xs else x # links Outside xs)"
| "links Label (a # b # xs) =
     (if a = 93 \<and> b = 40 \<and> closes_on_line 41 xs then 58 # 32 # links Target xs
      else a # links Label (b # xs))"
| "links Target (x # xs) = (if x = 41 then links Outside xs else x # links Target xs)"
| "links part xs = xs"

definition process_text_for_whatsapp :: "ustr \<Rightarrow> ustr" where
  "process_text_for_whatsapp t =
     (if t = [] then []
      else filter (\<lambda>c. \<not> (c \<le> 31 \<or> c = 127))
             (links Outside (bold False (strip (remove_brackets False t)))))"

text \<open>
  A code point that no pattern of the post-processing starts at and that is no control
  character.
\<close>

definition plain :: "nat \<Rightarrow> bool" where
  "plain c = (31 < c \<and> c \<noteq> 127 \<and> c \<noteq> 42 \<and> c \<noteq> 91 \<and> c \<noteq> 12304)"

subsection \<open>Intent detection\<close>

text \<open>
  \<^verbatim>\<open>str.lower\<close> follows the Unicode tables of the interpreter, which are not part of the
  repository: it is a parameter \<open>lower\<close> of everything that lowers a message.
  \<open>ascii_lower\<close> is what it does on ASCII text.
\<close>

definition ascii_lower :: "ustr \<Rightarrow> ustr" where
  "ascii_lower s = map (\<lambda>c. if 65 \<le> c \<and> c \<le> 90 then c + 32 else c) s"

definition ticket_keywords :: "ustr list" where
  "ticket_keywords =
     [ascii ''problema'', ascii ''error'', ascii ''falla'', ascii ''ticket'', ascii ''ayuda'',
      ascii ''soporte'', ascii ''no funciona'', ascii ''issue'', ascii ''bug'', ascii ''help'',
      ascii ''support'', ascii ''not working'', ascii ''broken'',
      ascii ''doesn'' @ [39] @ ascii ''t work'']"

fun starts_with :: "ustr \<Rightarrow> ustr \<Rightarrow> bool" where
  "starts_with [] s = True"
| "starts_with (k # ks) [] = False"
| "starts_with (k # ks) (c # cs) = (k = c \<and> starts_with ks cs)"

text \<open>The substring test \<^verbatim>\<open>keyword in message_lower\<close>.\<close>

fun contains :: "ustr \<Rightarrow> ustr \<Rightarrow> bool" where
  "contains kw [] = (kw = [])"
| "contains kw (c # cs) = (starts_with kw (c # cs) \<or> contains kw cs)"

fun keyword_match :: "ustr list \<Rightarrow> ustr \<Rightarrow> bool" where
  "keyword_match [] message_lower = False"
| "keyword_match (keyword # rest) message_lower =
     (if contains keyword message_lower then True else keyword_match rest message_lower)"

definition detect_ticket_intent :: "(ustr \<Rightarrow> ustr) \<Rightarrow> ustr \<Rightarrow> bool" where
  "detect_ticket_intent lower message = keyword_match ticket_keywords (lower message)"

subsection \<open>Handling an inbound message\<close>

text \<open>
  What \<^verbatim>\<open>process_whatsapp_message\<close> reads from the webhook body: the sender, the profile
  name, the message type (\<^verbatim>\<open>message.get("type")\<close>) and the text body, whose absence is a
  \<^verbatim>\<open>KeyError\<close>. A body from which the sender, the name or the message cannot be read is
  \<open>None\<close>.
\<close>

record inbound =
  wa_id :: string
  profile_name :: ustr
  message_type :: "string option"
  text_body :: "ustr option"

definition text_only_reply :: ustr where
  "text_only_reply = ascii ''Lo siento, actualmente solo puedo procesar mensajes de texto.''"

definition restart_reply :: ustr where
  "restart_reply =
     ascii ''He reiniciado nuestra conversaci'' @ [243] @ ascii ''n. '' @ [191] @ ascii ''En qu''
     @ [233] @ ascii '' puedo ayudarte?''"

definition welcome_reply :: "ustr \<Rightarrow> ustr" where
  "welcome_reply name =
     [161] @ ascii ''Hola '' @ name @ ascii ''! Bienvenido. '' @ [191] @ ascii ''En qu'' @ [233]
     @ ascii '' puedo ayudarte hoy?''"

definition describe_reply :: ustr where
  "describe_reply = ascii ''Gracias. Por favor describe el problema en detalle.''"

definition ticket_created_reply :: ustr where
  "ticket_created_reply =
     [161] @ ascii ''Gracias! Tu ticket ha sido creado. Un agente de soporte te contactar''
     @ [225] @ ascii '' pronto.''"

definition ticket_subject_prompt :: ustr where
  "ticket_subject_prompt =
     ascii ''Parece que necesitas ayuda con un problema. '' @ [191] @ ascii ''Podr'' @ [237]
     @ ascii ''as proporcionar un breve t'' @ [237]
     @ ascii ''tulo o asunto para tu ticket de soporte?''"

text \<open>
  The router sends through \<^verbatim>\<open>send_whatsapp_message_background\<close> directly, whether or not
  the manager has been given a send function.
\<close>

definition send_whatsapp_message_background :: "string \<Rightarrow> ustr \<Rightarrow> manager \<Rightarrow> manager" where
  "send_whatsapp_message_background recipient body m = m\<lparr>outbox := outbox m @ [(recipient, body)]\<rparr>"

text \<open>The common end of the branches: post-process, record, send.\<close>

definition deliver_response :: "string \<Rightarrow> ustr \<Rightarrow> datetime \<Rightarrow> manager \<Rightarrow> manager" where
  "deliver_response user_id response now m =
     (let r = process_text_for_whatsapp response
      in send_whatsapp_message_background user_id r
           (add_message_to_history user_id ''assistant'' r now m))"

text \<open>
  \<open>clock k\<close> is the clock reading of the \<open>k\<close>-th call into the manager. The variable
  \<^verbatim>\<open>session\<close> is the dictionary the manager holds, so reading it is a lookup in the
  manager. The last branch calls \<^verbatim>\<open>generate_response\<close>, a name this module does not
  define (it imports \<^verbatim>\<open>generate_assistant_response\<close>): the \<^verbatim>\<open>NameError\<close> is caught by the
  handler of the function, and nothing is recorded or sent. The save of the sessions that
  ends the function writes a file and leaves the manager as it is.
\<close>

definition process_whatsapp_message ::
  "(ustr \<Rightarrow> ustr) \<Rightarrow> (nat \<Rightarrow> datetime) \<Rightarrow> inbound option \<Rightarrow> manager \<Rightarrow> manager" where
  "process_whatsapp_message lower clock body m =
     (case body of
        None \<Rightarrow> m
      | Some p \<Rightarrow>
          if message_type p \<noteq> Some ''text''
          then send_whatsapp_message_background (wa_id p) text_only_reply m
          else
            (case text_body p of
               None \<Rightarrow> m
             | Some message_body \<Rightarrow>
                 (let m1 = get_session (wa_id p) (clock 0) m;
                      m2 = add_message_to_history (wa_id p) ''user'' message_body (clock 1) m1
                  in if lower message_body \<in> set [ascii ''/restart'', ascii ''/reiniciar'']
                     then send_whatsapp_message_background (wa_id p) restart_reply
                            (add_message_to_history (wa_id p) ''assistant'' restart_reply (clock 3)
                               (restart_session (wa_id p) (clock 2) m2))
                     else
                       (case map_of (sessions m2) (wa_id p) of
                          None \<Rightarrow> m2
                        | Some session \<Rightarrow>
                            if state session = ''INITIAL''
                               \<and> lower message_body \<in> set [ascii ''hola'', ascii ''hi'', ascii ''hello'']
                            then deliver_response (wa_id p) (welcome_reply (profile_name p)) (clock 3)
                                   (update_session (wa_id p) [Set_state ''AWAITING_QUERY''] (clock 2) m2)
                            else if state session = ''TICKET_CREATION''
                            then
                              (if map_of (session_context session) ''ticket_subject'' = None
                               then deliver_response (wa_id p) describe_reply (clock 3)
                                      (update_session (wa_id p)
                                         [Set_context (AList.update ''ticket_subject'' message_body
                                                         (session_context session))]
                                         (clock 2) m2)
                               else deliver_response (wa_id p) ticket_created_reply (clock 3)
                                      (update_session (wa_id p)
                                         [Set_state ''AWAITING_QUERY'', Set_context []] (clock 2) m2))
                            else if detect_ticket_intent lower message_body
                                    \<and> state session \<noteq> ''TICKET_CREATION''
                            then deliver_response (wa_id p) ticket_subject_prompt (clock 3)
                                   (update_session (wa_id p)
                                      [Set_state ''TICKET_CREATION'', Set_context []] (clock 2) m2)
                            else m2))))"

section \<open>Runs of store operations\<close>

text \<open>
  The operations of the manager as data, so that a property can speak about every
  sequence of calls. Each call is atomic (the manager's lock); the three reading
  operations leave the manager as it is.

  The model holds values where the code holds objects. The two agree as long as no list
  or dictionary object is held by two sessions. Every operation builds the objects it
  stores itself, but for \<^verbatim>\<open>update_session\<close>, which stores the object it is given: a
  keyword value below stands for an object of its own, and the property about the
  counter in \<^verbatim>\<open>meta\<close> leaves out the runs in which \<^verbatim>\<open>update_session\<close> is given
  \<^verbatim>\<open>meta\<close>, for any user (see \<open>overwrites\<close>).
\<close>

datatype store_op =
    Get_session string datetime
  | Update_session string "field_update list" datetime
  | Restart_session string datetime
  | End_session string
  | Add_message_to_history string string ustr datetime
  | Is_session_active string datetime
  | Get_message_history string int
  | Save_sessions
  | Load_sessions file_contents
  | Set_send_message_function sender
  | Cleanup_tick datetime "string \<Rightarrow> datetime"

fun apply_op :: "(int \<Rightarrow> real) \<Rightarrow> store_op \<Rightarrow> manager \<Rightarrow> manager" where
  "apply_op total_seconds (Get_session u now) m = get_session u now m"
| "apply_op total_seconds (Update_session u kwargs now) m = update_session u kwargs now m"
| "apply_op total_seconds (Restart_session u now) m = restart_session u now m"
| "apply_op total_seconds (End_session u) m = end_session u m"
| "apply_op total_seconds (Add_message_to_history u rl body now) m =
     add_message_to_history u rl body now m"
| "apply_op total_seconds (Is_session_active u now) m = m"
| "apply_op total_seconds (Get_message_history u limit) m = m"
| "apply_op total_seconds Save_sessions m = m"
| "apply_op total_seconds (Load_sessions file) m = load_sessions file m"
| "apply_op total_seconds (Set_send_message_function f) m = set_send_message_function f m"
| "apply_op total_seconds (Cleanup_tick current_time notice_time) m =
     cleanup_tick total_seconds current_time notice_time m"

fun run_ops :: "(int \<Rightarrow> real) \<Rightarrow> store_op list \<Rightarrow> manager \<Rightarrow> manager" where
  "run_ops total_seconds [] m = m"
| "run_ops total_seconds (op # ops) m = run_ops total_seconds ops (apply_op total_seconds op m)"

text \<open>The number of \<^verbatim>\<open>add_message_to_history\<close> calls for a user in a run.\<close>

fun appends_for :: "string \<Rightarrow> store_op list \<Rightarrow> nat" where
  "appends_for u [] = 0"
| "appends_for u (Add_message_to_history v rl body now # ops) =
     (if v = u then 1 else 0) + appends_for u ops"
| "appends_for u (op # ops) = appends_for u ops"

text \<open>The user has a session before the run and after each of its steps.\<close>

fun kept :: "(int \<Rightarrow> real) \<Rightarrow> string \<Rightarrow> store_op list \<Rightarrow> manager \<Rightarrow> bool" where
  "kept total_seconds u [] m = (map_of (sessions m) u \<noteq> None)"
| "kept total_seconds u (op # ops) m =
     (map_of (sessions m) u \<noteq> None \<and> kept total_seconds u ops (apply_op total_seconds op m))"

text \<open>
  The calls after which the counter of a user's session is no longer the one the
  manager built: a load of a file that has a record for the user, and an update that
  passes the keyword \<^verbatim>\<open>meta\<close>, for whichever user. The update stores the dictionary
  object it is given, which replaces the counter of that user and may be the \<^verbatim>\<open>meta\<close>
  of another session, so that an append for either user would count in both.
\<close>

fun sets_meta :: "field_update \<Rightarrow> bool" where
  "sets_meta (Set_meta v) = True"
| "sets_meta k = False"

fun overwrites :: "string \<Rightarrow> store_op \<Rightarrow> bool" where
  "overwrites u (Load_sessions (Json_sessions loaded_sessions)) = (u \<in> set (map fst loaded_sessions))"
| "overwrites u (Update_session v kwargs now) = list_ex sets_meta kwargs"
| "overwrites u op = False"

text \<open>
  The calls that clear the warning flag of a user's session or put another session in
  its place: \<^verbatim>\<open>get_session\<close>, \<^verbatim>\<open>update_session\<close>, \<^verbatim>\<open>add_message_to_history\<close> and
  \<^verbatim>\<open>restart_session\<close> for that user, and a load of a file that has a record for the user.
\<close>

fun rearms :: "string \<Rightarrow> store_op \<Rightarrow> bool" where
  "rearms u (Get_session v now) = (v = u)"
| "rearms u (Update_session v kwargs now) = (v = u)"
| "rearms u (Add_message_to_history v rl body now) = (v = u)"
| "rearms u (Restart_session v now) = (v = u)"
| "rearms u (Load_sessions (Json_sessions loaded_sessions)) = (u \<in> set (map fst loaded_sessions))"
| "rearms u op = False"

text \<open>The inactivity warnings among the messages sent to a user since an earlier state.\<close>

definition warnings_to :: "string \<Rightarrow> manager \<Rightarrow> manager \<Rightarrow> ustr list" where
  "warnings_to user_id before after =
     filter (\<lambda>body. body = warning_message before) (sent_to user_id before after)"

text \<open>The message counter of a session, read as the code reads it.\<close>

definition message_count :: "session \<Rightarrow> int" where
  "message_count s = meta_get (total_messages (meta s))"

section \<open>Webhook verification\<close>

text \<open>
  \<^verbatim>\<open>verify_webhook\<close> reads the configured token from the environment and the three
  query parameters; each may be absent. A Python string is false when it is empty.
\<close>

record verify_request =
  hub_mode :: "string option"
  hub_verify_token :: "string option"
  hub_challenge :: "string option"

definition truthy :: "string option \<Rightarrow> bool" where
  "truthy v = (case v of None \<Rightarrow> False | Some s \<Rightarrow> s \<noteq> [])"

definition verify_webhook :: "string option \<Rightarrow> verify_request \<Rightarrow> string option \<times> nat" where
  "verify_webhook verify_token request =
     (let mode = hub_mode request; token = hub_verify_token request;
          challenge = hub_challenge request
      in if truthy mode \<and> truthy token
         then (if mode = Some ''subscribe'' \<and> token = verify_token
               then (challenge, 200)
               else (Some ''Forbidden'', 403))
         else (Some ''Bad Request'', 400))"

section \<open>The assistant response\<close>

text \<open>
  \<^verbatim>\<open>generate_assistant_response\<close> talks to the provider and to the clock. Both are
  the environment of the model: which calls return and which raise, the clock reading at
  the start and at the \<open>k\<close>-th test of the loop condition (in seconds), what the \<open>k\<close>-th
  \<^verbatim>\<open>retrieve\<close> of the run reports, and what the listing of the thread holds. The
  one-second sleep between two polls shows in the clock readings only.
\<close>

datatype content_part = Text_part ustr | Other_part

record thread_message =
  message_role :: string
  message_content :: "content_part list"

datatype retrieved = Retrieve_raises | Run_status string

datatype listed = List_raises | Listed "thread_message list"

record provider =
  client_created :: bool
  assistant_id :: "string option"
  thread_found :: bool
  message_created :: bool
  run_created :: bool
  start_time :: real
  time_at :: "nat \<Rightarrow> real"
  retrieve :: "nat \<Rightarrow> retrieved"
  listing :: listed

definition no_assistant_message :: ustr where
  "no_assistant_message =
     ascii ''Error: No se ha configurado un asistente. Contacta al administrador.''"

definition no_text_message :: ustr where
  "no_text_message = ascii ''No se encontr'' @ [243] @ ascii '' una respuesta de texto.''"

definition run_failed_message :: ustr where
  "run_failed_message = ascii ''Lo siento, hubo un problema al procesar tu mensaje.''"

definition timeout_message :: ustr where
  "timeout_message =
     ascii ''Lo siento, la respuesta est'' @ [225] @ ascii '' tomando demasiado tiempo.''"

definition unexpected_error_message :: ustr where
  "unexpected_error_message =
     ascii ''Lo siento, ha ocurrido un error inesperado. Por favor, int'' @ [233]
     @ ascii ''ntalo de nuevo m'' @ [225] @ ascii ''s tarde.''"

definition max_wait_time :: real where
  "max_wait_time = 60"

text \<open>The first text part of the first assistant message that has one.\<close>

fun first_text_part :: "content_part list \<Rightarrow> ustr option" where
  "first_text_part [] = None"
| "first_text_part (Text_part v # rest) = Some v"
| "first_text_part (Other_part # rest) = first_text_part rest"

fun first_assistant_text :: "thread_message list \<Rightarrow> ustr" where
  "first_assistant_text [] = no_text_message"
| "first_assistant_text (msg # rest) =
     (if message_role msg = ''assistant''
      then (case first_text_part (message_content msg) of
              Some v \<Rightarrow> v
            | None \<Rightarrow> first_assistant_text rest)
      else first_assistant_text rest)"

datatype raised = Raised

text \<open>
  The polling loop from its \<open>k\<close>-th test on. Its result is \<open>None\<close> when the loop never
  ends, \<open>Some (Inl Raised)\<close> when a call raises, \<open>Some (Inr text)\<close> when it returns.
\<close>

partial_function (option) poll_run :: "provider \<Rightarrow> nat \<Rightarrow> (raised + ustr) option" where
  "poll_run env k =
     (if time_at env k - start_time env < max_wait_time
      then (case retrieve env k of
              Retrieve_raises \<Rightarrow> Some (Inl Raised)
            | Run_status status \<Rightarrow>
                if status = ''completed''
                then (case listing env of
                        List_raises \<Rightarrow> Some (Inl Raised)
                      | Listed messages \<Rightarrow> Some (Inr (first_assistant_text messages)))
                else if status \<in> set [''failed'', ''cancelled'', ''expired'']
                then Some (Inr run_failed_message)
                else poll_run env (Suc k))
      else Some (Inr timeout_message))"

text \<open>The body of the \<^verbatim>\<open>try\<close> block, and the function with its handler.\<close>

definition response_attempt :: "provider \<Rightarrow> (raised + ustr) option" where
  "response_attempt env =
     (if \<not> client_created env then Some (Inl Raised)
      else if \<not> truthy (assistant_id env) then Some (Inr no_assistant_message)
      else if \<not> thread_found env then Some (Inl Raised)
      else if \<not> message_created env then Some (Inl Raised)
      else if \<not> run_created env then Some (Inl Raised)
      else poll_run env 0)"

definition generate_assistant_response :: "provider \<Rightarrow> ustr option" where
  "generate_assistant_response env =
     map_option (\<lambda>r. case r of Inl e \<Rightarrow> unexpected_error_message | Inr v \<Rightarrow> v)
       (response_attempt env)"

text \<open>A run that is neither finished nor abandoned.\<close>

definition pending :: "retrieved \<Rightarrow> bool" where
  "pending r =
     (case r of
        Retrieve_raises \<Rightarrow> False
      | Run_status status \<Rightarrow>
          status \<notin> set [''completed'', ''failed'', ''cancelled'', ''expired''])"

section \<open>Sample data\<close>

definition sample_time :: "nat \<Rightarrow> nat \<Rightarrow> datetime" where
  "sample_time mi us =
     \<lparr>year = 2025, month = 2, day = 28, hour = 18, minute = mi, second = 30, microsecond = us\<rparr>"

definition sample_message :: "string \<Rightarrow> string \<Rightarrow> message" where
  "sample_message rl body =
     \<lparr>role = rl, content = ascii body, timestamp = isoformat (sample_time 0 0), msg_type = None\<rparr>"

definition sample_session :: session where
  "sample_session =
     \<lparr>created_at = sample_time 0 0, last_activity = sample_time 0 0, state = ''AWAITING_QUERY'',
      session_context = [(''ticket_subject'', ascii ''printer'')], thread_id = None,
      message_history = [sample_message ''user'' ''hola'', sample_message ''assistant'' ''Hola''],
      inactivity_warning_sent = False, closing_notice_sent = False,
      meta = \<lparr>total_messages = Some 2, session_restarts = Some 0\<rparr>\<rparr>"

definition sample_manager :: "sender option \<Rightarrow> manager" where
  "sample_manager f =
     \<lparr>sessions = [(''5215550001'', sample_session)], session_timeout = 600,
      inactivity_warning = 300, send_message_func = f, outbox = [], stats_log = []\<rparr>"

text \<open>
  \<^verbatim>\<open>total_seconds\<close> where the quotient is a float, as it is for the gaps of the sample
  data between a scan and a last activity, which are whole seconds.
\<close>

definition exact_seconds :: "int \<Rightarrow> real" where
  "exact_seconds us = real_of_int us / 1000000"

section \<open>Properties of the session store\<close>

subsection \<open>Restarting a session\<close>

text \<open>
  C3. For a user whose session exists, \<^verbatim>\<open>restart_session\<close> stores a session whose message
  count is the old one (read, as the code reads it, with default 0), whose restart
  count is the old one plus 1, whose context is empty and whose state is INITIAL.
\<close>

theorem restart_session_keeps_count:
  "map_of (sessions m) user_id = Some s \<Longrightarrow>
   \<exists>s'. map_of (sessions (restart_session user_id now m)) user_id = Some s'
      \<and> meta_get (total_messages (meta s')) = meta_get (total_messages (meta s))
      \<and> meta_get (session_restarts (meta s')) = meta_get (session_restarts (meta s)) + 1
      \<and> session_context s' = [] \<and> state s' = ''INITIAL''"
  by (simp add: restart_session_def new_session_def AList.update_conv' meta_get_def)

theorem restart_session_keeps_count_witness:
  "\<exists>s'. map_of (sessions (restart_session ''5215550001'' (sample_time 5 0)
                            (sample_manager None))) ''5215550001'' = Some s'
      \<and> meta_get (total_messages (meta s')) = 2
      \<and> meta_get (session_restarts (meta s')) = 1
      \<and> session_context s' = [] \<and> state s' = ''INITIAL''"
  using restart_session_keeps_count
          [of "sample_manager None" "''5215550001''" sample_session "sample_time 5 0"]
  by (simp add: sample_manager_def sample_session_def meta_get_def)

subsection \<open>Recent history\<close>

text \<open>
  For a positive limit the slice \<^verbatim>\<open>[-limit:]\<close> is the last \<open>limit\<close> entries, or the whole
  history when it is shorter; without a session the result is empty.
\<close>

lemma get_message_history_positive:
  assumes "0 < limit" and "map_of (sessions m) user_id = Some s"
  shows "get_message_history user_id limit m
           = drop (length (message_history s) - nat limit) (message_history s)"
proof -
  have "nat (max (int (length (message_history s)) - limit) 0)
          = length (message_history s) - nat limit"
    using assms(1) by linarith
  then show ?thesis
    using assms by (simp add: get_message_history_def slice_from_def)
qed

lemma get_message_history_absent:
  "map_of (sessions m) user_id = None \<Longrightarrow> get_message_history user_id limit m = []"
  by (simp add: get_message_history_def)

text \<open>
  C5. With limit 0 the slice is \<^verbatim>\<open>[-0:]\<close>, that is \<^verbatim>\<open>[0:]\<close>: the call returns the whole
  history, not its last 0 entries.
\<close>

theorem get_message_history_limit_zero:
  "get_message_history ''5215550001'' 0 (sample_manager None)
     = [sample_message ''user'' ''hola'', sample_message ''assistant'' ''Hola'']"
  by (simp add: get_message_history_def sample_manager_def sample_session_def slice_from_def)

section \<open>Properties of the webhook verification\<close>

text \<open>
  C9 as stated fails: a request that lacks the token (or the mode) is answered with
  400, not 403.
\<close>

theorem verify_webhook_missing_token:
  "verify_webhook (Some ''secret'')
     \<lparr>hub_mode = Some ''subscribe'', hub_verify_token = None, hub_challenge = Some ''1158201444''\<rparr>
     = (Some ''Bad Request'', 400)"
  by (simp add: verify_webhook_def truthy_def)

text \<open>
  C9, amended. With a non-empty mode and a non-empty token, the answer is the challenge
  with status 200 when the mode is \<^verbatim>\<open>subscribe\<close> and the token equals the configured one,
  and status 403 otherwise; when the mode or the token is missing or empty the answer is
  status 400.
\<close>

theorem verify_webhook_responses:
  "(truthy (hub_mode r) \<and> truthy (hub_verify_token r) \<and> hub_mode r = Some ''subscribe''
      \<and> hub_verify_token r = verify_token
      \<longrightarrow> verify_webhook verify_token r = (hub_challenge r, 200))
   \<and> (truthy (hub_mode r) \<and> truthy (hub_verify_token r)
      \<and> (hub_mode r \<noteq> Some ''subscribe'' \<or> hub_verify_token r \<noteq> verify_token)
      \<longrightarrow> snd (verify_webhook verify_token r) = 403)
   \<and> (\<not> truthy (hub_mode r) \<or> \<not> truthy (hub_verify_token r)
      \<longrightarrow> snd (verify_webhook verify_token r) = 400)"
  by (auto simp add: verify_webhook_def)

theorem verify_webhook_responses_witness:
  "verify_webhook (Some ''secret'')
     \<lparr>hub_mode = Some ''subscribe'', hub_verify_token = Some ''secret'',
      hub_challenge = Some ''1158201444''\<rparr> = (Some ''1158201444'', 200)
   \<and> snd (verify_webhook (Some ''secret'')
     \<lparr>hub_mode = Some ''subscribe'', hub_verify_token = Some ''guess'',
      hub_challenge = Some ''1158201444''\<rparr>) = 403
   \<and> snd (verify_webhook (Some ''secret'')
     \<lparr>hub_mode = Some [], hub_verify_token = Some ''secret'',
      hub_challenge = Some ''1158201444''\<rparr>) = 400"
  using verify_webhook_responses
          [of "\<lparr>hub_mode = Some ''subscribe'', hub_verify_token = Some ''secret'',
                hub_challenge = Some ''1158201444''\<rparr>" "Some ''secret''"]
        verify_webhook_responses
          [of "\<lparr>hub_mode = Some ''subscribe'', hub_verify_token = Some ''guess'',
                hub_challenge = Some ''1158201444''\<rparr>" "Some ''secret''"]
        verify_webhook_responses
          [of "\<lparr>hub_mode = Some [], hub_verify_token = Some ''secret'',
                hub_challenge = Some ''1158201444''\<rparr>" "Some ''secret''"]
  by (simp add: truthy_def)

section \<open>Properties of the sweeper\<close>

subsection \<open>Notices\<close>

lemma notify_fields:
  "sessions (notify u b m) = sessions m"
  "session_timeout (notify u b m) = session_timeout m"
  "inactivity_warning (notify u b m) = inactivity_warning m"
  "send_message_func (notify u b m) = send_message_func m"
  "stats_log (notify u b m) = stats_log m"
  "outbox (notify u b m) = outbox m @ (if send_message_func m = None then [] else [(u, b)])"
  by (simp_all add: notify_def split: option.splits)

lemma deliver_notice_fields:
  "session_timeout (deliver_notice u b t m) = session_timeout m"
  "inactivity_warning (deliver_notice u b t m) = inactivity_warning m"
  "send_message_func (deliver_notice u b t m) = send_message_func m"
  "stats_log (deliver_notice u b t m) = stats_log m"
  "outbox (deliver_notice u b t m) = outbox m @ (if send_message_func m = None then [] else [(u, b)])"
  by (simp_all add: deliver_notice_def notify_fields Let_def split: option.splits)

lemma deliver_notice_lookup:
  "map_of (sessions (deliver_notice u b t m)) v =
     (if v = u
      then map_option (\<lambda>s. s\<lparr>message_history := message_history s @ [system_notice b t]\<rparr>)
             (map_of (sessions m) u)
      else map_of (sessions m) v)"
  by (simp add: deliver_notice_def notify_fields Let_def AList.update_conv' split: option.splits)

lemma deliver_notice_keys:
  "map fst (sessions (deliver_notice u b t m)) = map fst (sessions m)"
  by (auto simp add: deliver_notice_def notify_fields Let_def AList.update_keys map_of_eq_None_iff
      split: option.splits)

lemma discard_session_fields:
  "session_timeout (discard_session u m) = session_timeout m"
  "inactivity_warning (discard_session u m) = inactivity_warning m"
  "send_message_func (discard_session u m) = send_message_func m"
  "outbox (discard_session u m) = outbox m"
  by (simp_all add: discard_session_def Let_def split: option.splits)

lemma discard_session_lookup:
  "map_of (sessions (discard_session u m)) v = (if v = u then None else map_of (sessions m) v)"
  by (simp add: discard_session_def Let_def AList.delete_conv' split: option.splits)

lemma discard_session_keys:
  "map fst (sessions (discard_session u m)) = removeAll u (map fst (sessions m))"
  by (auto simp add: discard_session_def Let_def AList.delete_keys map_of_eq_None_iff
      split: option.splits)

lemma discard_session_stats:
  "stats_log (discard_session u m) =
     stats_log m @ (case map_of (sessions m) u of None \<Rightarrow> []
                    | Some s \<Rightarrow> [(u, length (message_history s))])"
  by (simp add: discard_session_def Let_def split: option.splits)

lemma warning_message_cong:
  "session_timeout m' = session_timeout m \<Longrightarrow> inactivity_warning m' = inactivity_warning m
   \<Longrightarrow> warning_message m' = warning_message m"
  by (simp add: warning_message_def)

lemma send_inactivity_warning_fields:
  "session_timeout (send_inactivity_warning u t m) = session_timeout m"
  "inactivity_warning (send_inactivity_warning u t m) = inactivity_warning m"
  "send_message_func (send_inactivity_warning u t m) = send_message_func m"
  "stats_log (send_inactivity_warning u t m) = stats_log m"
  by (simp_all add: send_inactivity_warning_def deliver_notice_fields)

lemma close_inactive_session_fields:
  "session_timeout (close_inactive_session u t m) = session_timeout m"
  "inactivity_warning (close_inactive_session u t m) = inactivity_warning m"
  "send_message_func (close_inactive_session u t m) = send_message_func m"
  by (simp_all add: close_inactive_session_def deliver_notice_fields discard_session_fields)

subsection \<open>Folds\<close>

lemma fold_warning_fields:
  "session_timeout (fold (\<lambda>u. send_inactivity_warning u (nt u)) us m) = session_timeout m"
  "inactivity_warning (fold (\<lambda>u. send_inactivity_warning u (nt u)) us m) = inactivity_warning m"
  "send_message_func (fold (\<lambda>u. send_inactivity_warning u (nt u)) us m) = send_message_func m"
  "stats_log (fold (\<lambda>u. send_inactivity_warning u (nt u)) us m) = stats_log m"
  by (induction us arbitrary: m; simp add: send_inactivity_warning_fields)+

lemma fold_warning_outbox:
  "outbox (fold (\<lambda>u. send_inactivity_warning u (nt u)) us m) =
     outbox m @ (if send_message_func m = None then []
                 else map (\<lambda>u. (u, warning_message m)) us)"
proof (induction us arbitrary: m)
  case Nil
  then show ?case by simp
next
  case (Cons v us)
  have "warning_message (send_inactivity_warning v (nt v) m) = warning_message m"
    by (rule warning_message_cong) (simp_all add: send_inactivity_warning_fields)
  then show ?case
    by (simp add: Cons send_inactivity_warning_fields)
       (simp add: send_inactivity_warning_def deliver_notice_fields)
qed

lemma fold_warning_keys:
  "map fst (sessions (fold (\<lambda>u. send_inactivity_warning u (nt u)) us m)) = map fst (sessions m)"
  by (induction us arbitrary: m) (simp_all add: send_inactivity_warning_def deliver_notice_keys)

lemma fold_warning_other:
  "u \<notin> set us \<Longrightarrow>
   map_of (sessions (fold (\<lambda>u. send_inactivity_warning u (nt u)) us m)) u = map_of (sessions m) u"
  by (induction us arbitrary: m)
     (auto simp add: send_inactivity_warning_def deliver_notice_lookup)

lemma fold_warning_member:
  "distinct us \<Longrightarrow> u \<in> set us \<Longrightarrow> map_of (sessions m) u = Some s \<Longrightarrow>
   map_of (sessions (fold (\<lambda>u. send_inactivity_warning u (nt u)) us m)) u
     = Some (s\<lparr>message_history :=
                 message_history s @ [system_notice (warning_message m) (nt u)]\<rparr>)"
proof (induction us arbitrary: m)
  case Nil
  then show ?case by simp
next
  case (Cons v us)
  show ?case
  proof (cases "v = u")
    case True
    then have "u \<notin> set us" using Cons.prems(1) by simp
    then show ?thesis
      using True Cons.prems(3)
      by (simp add: fold_warning_other) (simp add: send_inactivity_warning_def deliver_notice_lookup)
  next
    case False
    have wm: "warning_message (send_inactivity_warning v (nt v) m) = warning_message m"
      by (rule warning_message_cong) (simp_all add: send_inactivity_warning_fields)
    have "map_of (sessions (send_inactivity_warning v (nt v) m)) u = Some s"
      using False Cons.prems(3) by (simp add: send_inactivity_warning_def deliver_notice_lookup)
    moreover have "distinct us" "u \<in> set us" using Cons.prems False by auto
    ultimately show ?thesis
      using Cons.IH[of "send_inactivity_warning v (nt v) m"] wm by simp
  qed
qed

lemma fold_close_fields:
  "session_timeout (fold (\<lambda>u. close_inactive_session u (nt u)) us m) = session_timeout m"
  "inactivity_warning (fold (\<lambda>u. close_inactive_session u (nt u)) us m) = inactivity_warning m"
  "send_message_func (fold (\<lambda>u. close_inactive_session u (nt u)) us m) = send_message_func m"
  by (induction us arbitrary: m; simp add: close_inactive_session_fields)+

lemma fold_close_outbox:
  "outbox (fold (\<lambda>u. close_inactive_session u (nt u)) us m) =
     outbox m @ (if send_message_func m = None then []
                 else map (\<lambda>u. (u, closing_message)) us)"
  by (induction us arbitrary: m)
     (simp_all add: close_inactive_session_fields,
      simp_all add: close_inactive_session_def discard_session_fields deliver_notice_fields)

lemma close_inactive_session_lookup:
  "map_of (sessions (close_inactive_session u t m)) v
     = (if v = u then None else map_of (sessions m) v)"
  by (simp add: close_inactive_session_def discard_session_lookup deliver_notice_lookup)

lemma fold_close_other:
  "u \<notin> set us \<Longrightarrow>
   map_of (sessions (fold (\<lambda>u. close_inactive_session u (nt u)) us m)) u = map_of (sessions m) u"
  by (induction us arbitrary: m) (auto simp add: close_inactive_session_lookup)

lemma fold_close_absent:
  "map_of (sessions m) u = None \<Longrightarrow>
   map_of (sessions (fold (\<lambda>u. close_inactive_session u (nt u)) us m)) u = None"
  by (induction us arbitrary: m) (auto simp add: close_inactive_session_lookup)

lemma fold_close_member:
  "u \<in> set us \<Longrightarrow>
   map_of (sessions (fold (\<lambda>u. close_inactive_session u (nt u)) us m)) u = None"
proof (induction us arbitrary: m)
  case Nil
  then show ?case by simp
next
  case (Cons v us)
  show ?case
  proof (cases "v = u")
    case True
    then show ?thesis
      by (simp add: fold_close_absent close_inactive_session_lookup)
  next
    case False
    then show ?thesis using Cons by simp
  qed
qed

lemma close_inactive_session_stats:
  "stats_log (close_inactive_session u t m) =
     stats_log m @ (case map_of (sessions m) u of None \<Rightarrow> []
                    | Some s \<Rightarrow> [(u, Suc (length (message_history s)))])"
  by (simp add: close_inactive_session_def discard_session_stats deliver_notice_lookup
      deliver_notice_fields split: option.splits)

lemma fold_close_stats_other:
  "u \<notin> set us \<Longrightarrow>
   filter (\<lambda>e. fst e = u) (stats_log (fold (\<lambda>u. close_inactive_session u (nt u)) us m))
     = filter (\<lambda>e. fst e = u) (stats_log m)"
  by (induction us arbitrary: m)
     (auto simp add: close_inactive_session_stats split: option.splits)

lemma fold_close_stats_member:
  "distinct us \<Longrightarrow> u \<in> set us \<Longrightarrow> map_of (sessions m) u = Some s \<Longrightarrow>
   filter (\<lambda>e. fst e = u) (stats_log (fold (\<lambda>u. close_inactive_session u (nt u)) us m))
     = filter (\<lambda>e. fst e = u) (stats_log m) @ [(u, Suc (length (message_history s)))]"
proof (induction us arbitrary: m)
  case Nil
  then show ?case by simp
next
  case (Cons v us)
  show ?case
  proof (cases "v = u")
    case True
    then have "u \<notin> set us" using Cons.prems(1) by simp
    then show ?thesis using True Cons.prems(3)
      by (simp add: fold_close_stats_other close_inactive_session_stats)
  next
    case False
    have "map_of (sessions (close_inactive_session v (nt v) m)) u = Some s"
      using False Cons.prems(3) by (simp add: close_inactive_session_lookup)
    moreover have "distinct us" "u \<in> set us" using Cons.prems False by auto
    ultimately show ?thesis
      using Cons.IH[of "close_inactive_session v (nt v) m"] False
      by (simp add: close_inactive_session_stats split: option.splits)
  qed
qed

subsection \<open>The scan\<close>

lemma scan_sessions_eq:
  "scan_sessions ts T W now ss =
     (map (\<lambda>(u, s). (u, marked ts T W now s)) ss,
      map fst (filter (\<lambda>(u, s). due_warning ts T W now s) ss),
      map fst (filter (\<lambda>(u, s). due_close ts T now s) ss))"
proof (induction ss)
  case Nil
  then show ?case by simp
next
  case (Cons p ss)
  obtain u s where p: "p = (u, s)" by (cases p)
  show ?case
    unfolding p by (auto simp add: Cons marked_def due_warning_def due_close_def)
qed

lemma marked_keys: "map fst (map (\<lambda>(u, s). (u, f s)) ss) = map fst ss"
  by (induction ss) auto

lemma marked_lookup:
  "map_of (map (\<lambda>(u, s). (u, f s)) ss) u = map_option f (map_of ss u)"
  by (induction ss) auto

lemma collected_distinct:
  "distinct (map fst ss) \<Longrightarrow> distinct (map fst (filter P ss))"
  by (induction ss) auto

lemma collected_member:
  "distinct (map fst ss) \<Longrightarrow> map_of ss u = Some s \<Longrightarrow>
   u \<in> set (map fst (filter (\<lambda>(v, s). P s) ss)) \<longleftrightarrow> P s"
  by (induction ss) (auto simp add: rev_image_eqI split: if_splits)

lemma collected_absent:
  "map_of ss u = None \<Longrightarrow> u \<notin> set (map fst (filter P ss))"
  by (induction ss) (auto split: if_splits)

lemma filter_eq_distinct:
  "distinct vs \<Longrightarrow> filter (\<lambda>v. v = u) vs = (if u \<in> set vs then [u] else [])"
  by (induction vs) auto

lemma filter_fst_map:
  "filter (\<lambda>e. fst e = u) (map (\<lambda>v. (v, c)) vs) = map (\<lambda>v. (v, c)) (filter (\<lambda>v. v = u) vs)"
  by (induction vs) auto

subsection \<open>One pass\<close>

lemma cleanup_tick_fields:
  "session_timeout (cleanup_tick ts now nt m) = session_timeout m"
  "inactivity_warning (cleanup_tick ts now nt m) = inactivity_warning m"
  "send_message_func (cleanup_tick ts now nt m) = send_message_func m"
  by (simp_all add: cleanup_tick_def scan_sessions_eq fold_close_fields fold_warning_fields)

lemma cleanup_tick_outbox:
  "outbox (cleanup_tick ts now nt m) =
     outbox m @
     (if send_message_func m = None then []
      else map (\<lambda>u. (u, warning_message m))
             (map fst (filter (\<lambda>(u, s). due_warning ts (session_timeout m) (inactivity_warning m) now s)
                         (sessions m)))
           @ map (\<lambda>u. (u, closing_message))
               (map fst (filter (\<lambda>(u, s). due_close ts (session_timeout m) now s) (sessions m))))"
proof -
  have "warning_message (m\<lparr>sessions := ss\<rparr>) = warning_message m" for ss
    by (simp add: warning_message_def)
  then show ?thesis
    by (simp add: cleanup_tick_def scan_sessions_eq fold_close_outbox fold_warning_outbox
        fold_warning_fields)
qed

lemma sent_to_append:
  "outbox m' = outbox m @ new \<Longrightarrow> sent_to u m m' = map snd (filter (\<lambda>e. fst e = u) new)"
  by (simp add: sent_to_def)

lemma cleanup_tick_sent_to:
  assumes "distinct (map fst (sessions m))"
  shows "sent_to u m (cleanup_tick ts now nt m) =
     (if send_message_func m = None then []
      else (case map_of (sessions m) u of
              None \<Rightarrow> []
            | Some s \<Rightarrow>
                if due_close ts (session_timeout m) now s then [closing_message]
                else if due_warning ts (session_timeout m) (inactivity_warning m) now s
                then [warning_message m] else []))"
proof -
  define warn where
    "warn = map fst (filter (\<lambda>(u, s). due_warning ts (session_timeout m) (inactivity_warning m) now s)
                       (sessions m))"
  define close where
    "close = map fst (filter (\<lambda>(u, s). due_close ts (session_timeout m) now s) (sessions m))"
  have ob: "outbox (cleanup_tick ts now nt m) =
     outbox m @ (if send_message_func m = None then []
                 else map (\<lambda>u. (u, warning_message m)) warn
                      @ map (\<lambda>u. (u, closing_message)) close)"
    unfolding warn_def close_def by (rule cleanup_tick_outbox)
  have dw: "distinct warn" and dc: "distinct close"
    unfolding warn_def close_def by (rule collected_distinct[OF assms])+
  have sent: "sent_to u m (cleanup_tick ts now nt m) =
     (if send_message_func m = None then []
      else (if u \<in> set warn then [warning_message m] else [])
           @ (if u \<in> set close then [closing_message] else []))"
    by (simp add: sent_to_append[OF ob] filter_fst_map filter_eq_distinct[OF dw]
        filter_eq_distinct[OF dc])
  show ?thesis
  proof (cases "map_of (sessions m) u")
    case None
    have "u \<notin> set warn" "u \<notin> set close"
      unfolding warn_def close_def by (rule collected_absent[OF None])+
    then show ?thesis using None sent by simp
  next
    case (Some s)
    have "u \<in> set warn \<longleftrightarrow> due_warning ts (session_timeout m) (inactivity_warning m) now s"
      and "u \<in> set close \<longleftrightarrow> due_close ts (session_timeout m) now s"
      unfolding warn_def close_def by (rule collected_member[OF assms Some])+
    moreover have "due_warning ts (session_timeout m) (inactivity_warning m) now s \<Longrightarrow>
        \<not> due_close ts (session_timeout m) now s"
      by (simp add: due_warning_def)
    ultimately show ?thesis using Some sent by auto
  qed
qed

lemma cleanup_tick_lookup:
  assumes "distinct (map fst (sessions m))"
  shows "map_of (sessions (cleanup_tick ts now nt m)) u =
     (case map_of (sessions m) u of
        None \<Rightarrow> None
      | Some s \<Rightarrow>
          if due_close ts (session_timeout m) now s then None
          else if due_warning ts (session_timeout m) (inactivity_warning m) now s
          then Some (s\<lparr>inactivity_warning_sent := True,
                      message_history :=
                        message_history s @ [system_notice (warning_message m) (nt u)]\<rparr>)
          else Some s)"
proof -
  let ?T = "session_timeout m" and ?W = "inactivity_warning m"
  let ?ss = "map (\<lambda>(u, s). (u, marked ts ?T ?W now s)) (sessions m)"
  let ?warn = "map fst (filter (\<lambda>(u, s). due_warning ts ?T ?W now s) (sessions m))"
  let ?close = "map fst (filter (\<lambda>(u, s). due_close ts ?T now s) (sessions m))"
  let ?m0 = "m\<lparr>sessions := ?ss\<rparr>"
  let ?m1 = "fold (\<lambda>u. send_inactivity_warning u (nt u)) ?warn ?m0"
  have tick: "cleanup_tick ts now nt m = fold (\<lambda>u. close_inactive_session u (nt u)) ?close ?m1"
    by (simp add: cleanup_tick_def scan_sessions_eq)
  have wm: "warning_message ?m0 = warning_message m"
    by (simp add: warning_message_def)
  have l0: "map_of (sessions ?m0) u = map_option (marked ts ?T ?W now) (map_of (sessions m) u)"
    by (simp add: marked_lookup)
  show ?thesis
  proof (cases "map_of (sessions m) u")
    case None
    then have "map_of (sessions ?m0) u = None" using l0 by simp
    moreover have "u \<notin> set ?warn" by (rule collected_absent[OF None])
    ultimately have "map_of (sessions ?m1) u = None"
      using fold_warning_other[of u ?warn nt ?m0] by simp
    then show ?thesis using None
      by (simp add: tick fold_close_absent)
  next
    case (Some s)
    have dw: "distinct ?warn" by (rule collected_distinct[OF assms])
    have mw: "u \<in> set ?warn \<longleftrightarrow> due_warning ts ?T ?W now s"
      by (rule collected_member[OF assms Some])
    have mc: "u \<in> set ?close \<longleftrightarrow> due_close ts ?T now s"
      by (rule collected_member[OF assms Some])
    have l0': "map_of (sessions ?m0) u = Some (marked ts ?T ?W now s)"
      using l0 Some by simp
    show ?thesis
    proof (cases "due_close ts ?T now s")
      case True
      then have "u \<in> set ?close" using mc by simp
      then have "map_of (sessions (cleanup_tick ts now nt m)) u = None"
        unfolding tick by (rule fold_close_member)
      then show ?thesis using Some True by simp
    next
      case False
      then have nc: "u \<notin> set ?close" using mc by simp
      have step: "map_of (sessions (cleanup_tick ts now nt m)) u = map_of (sessions ?m1) u"
        unfolding tick by (rule fold_close_other[OF nc])
      show ?thesis
      proof (cases "due_warning ts ?T ?W now s")
        case True
        then have "u \<in> set ?warn" using mw by simp
        from fold_warning_member[OF dw this l0', of nt]
        have "map_of (sessions ?m1) u =
                Some ((marked ts ?T ?W now s)\<lparr>message_history :=
                   message_history (marked ts ?T ?W now s) @ [system_notice (warning_message m) (nt u)]\<rparr>)"
          using wm by simp
        then show ?thesis
          using Some False True step by (simp add: marked_def)
      next
        case nw: False
        then have "u \<notin> set ?warn" using mw by simp
        then have "map_of (sessions ?m1) u = map_of (sessions ?m0) u"
          by (rule fold_warning_other)
        then show ?thesis
          using Some False nw step l0' by (simp add: marked_def)
      qed
    qed
  qed
qed

lemma fold_close_distinct:
  "distinct (map fst (sessions m)) \<Longrightarrow>
   distinct (map fst (sessions (fold (\<lambda>u. close_inactive_session u (nt u)) us m)))"
  by (induction us arbitrary: m)
     (simp_all add: close_inactive_session_def discard_session_keys deliver_notice_keys
        distinct_removeAll)

lemma cleanup_tick_distinct:
  "distinct (map fst (sessions m)) \<Longrightarrow> distinct (map fst (sessions (cleanup_tick ts now nt m)))"
  by (simp add: cleanup_tick_def scan_sessions_eq fold_close_distinct fold_warning_keys
      marked_keys del: map_map)

lemma cleanup_tick_extends: "\<exists>new. outbox (cleanup_tick ts now nt m) = outbox m @ new"
  using cleanup_tick_outbox[of ts now nt m] by blast

lemma cleanup_ticks_extends: "\<exists>new. outbox (cleanup_ticks ts ticks m) = outbox m @ new"
proof (induction ticks arbitrary: m)
  case Nil
  then show ?case by simp
next
  case (Cons tk ticks)
  obtain now nt where tk: "tk = (now, nt)" by (cases tk)
  obtain a where a: "outbox (cleanup_tick ts now nt m) = outbox m @ a"
    using cleanup_tick_extends by blast
  obtain b where "outbox (cleanup_ticks ts ticks (cleanup_tick ts now nt m))
                    = outbox (cleanup_tick ts now nt m) @ b"
    using Cons by blast
  then show ?case by (simp add: tk a)
qed

lemma sent_to_trans:
  assumes "\<exists>a. outbox m' = outbox m @ a" and "\<exists>b. outbox m'' = outbox m' @ b"
  shows "sent_to u m m'' = sent_to u m m' @ sent_to u m' m''"
proof -
  obtain a b where "outbox m' = outbox m @ a" "outbox m'' = outbox m' @ b"
    using assms by blast
  then show ?thesis by (simp add: sent_to_def)
qed

lemma cleanup_ticks_step:
  "sent_to u m (cleanup_ticks ts ((now, nt) # ticks) m) =
     sent_to u m (cleanup_tick ts now nt m)
     @ sent_to u (cleanup_tick ts now nt m) (cleanup_ticks ts ticks (cleanup_tick ts now nt m))"
  using sent_to_trans[OF cleanup_tick_extends cleanup_ticks_extends] by simp

lemma cleanup_ticks_absent:
  "distinct (map fst (sessions m)) \<Longrightarrow> map_of (sessions m) u = None \<Longrightarrow>
   sent_to u m (cleanup_ticks ts ticks m) = [] \<and> map_of (sessions (cleanup_ticks ts ticks m)) u = None"
proof (induction ticks arbitrary: m)
  case Nil
  then show ?case by (simp add: sent_to_def)
next
  case (Cons tk ticks)
  obtain now nt where tk: "tk = (now, nt)" by (cases tk)
  have 1: "sent_to u m (cleanup_tick ts now nt m) = []"
    using Cons.prems by (simp add: cleanup_tick_sent_to)
  have 2: "map_of (sessions (cleanup_tick ts now nt m)) u = None"
    using Cons.prems by (simp add: cleanup_tick_lookup)
  have 3: "distinct (map fst (sessions (cleanup_tick ts now nt m)))"
    using Cons.prems(1) by (rule cleanup_tick_distinct)
  show ?case
    unfolding tk using Cons.IH[OF 3 2] 1 by (simp only: cleanup_ticks_step) simp
qed

lemma cleanup_tick_stats:
  assumes "distinct (map fst (sessions m))" and "map_of (sessions m) u = Some s"
    and "due_close ts (session_timeout m) now s"
  shows "stats_for u m (cleanup_tick ts now nt m) = [Suc (length (message_history s))]"
proof -
  let ?T = "session_timeout m" and ?W = "inactivity_warning m"
  let ?ss = "map (\<lambda>(u, s). (u, marked ts ?T ?W now s)) (sessions m)"
  let ?warn = "map fst (filter (\<lambda>(u, s). due_warning ts ?T ?W now s) (sessions m))"
  let ?close = "map fst (filter (\<lambda>(u, s). due_close ts ?T now s) (sessions m))"
  let ?m0 = "m\<lparr>sessions := ?ss\<rparr>"
  let ?m1 = "fold (\<lambda>u. send_inactivity_warning u (nt u)) ?warn ?m0"
  have tick: "cleanup_tick ts now nt m = fold (\<lambda>u. close_inactive_session u (nt u)) ?close ?m1"
    by (simp add: cleanup_tick_def scan_sessions_eq)
  have "\<not> due_warning ts ?T ?W now s"
    using assms(3) by (simp add: due_warning_def)
  then have "u \<notin> set ?warn"
    using collected_member[OF assms(1,2), of "due_warning ts ?T ?W now"] by simp
  then have "map_of (sessions ?m1) u = map_of (sessions ?m0) u"
    by (rule fold_warning_other)
  then have l1: "map_of (sessions ?m1) u = Some (s\<lparr>closing_notice_sent := True\<rparr>)"
    using assms(2,3) by (simp add: marked_lookup marked_def)
  have "u \<in> set ?close"
    using collected_member[OF assms(1,2), of "due_close ts ?T now"] assms(3) by simp
  from fold_close_stats_member[OF collected_distinct[OF assms(1)] this l1, of nt]
  have f: "filter (\<lambda>e. fst e = u) (stats_log (cleanup_tick ts now nt m))
          = filter (\<lambda>e. fst e = u) (stats_log m) @ [(u, Suc (length (message_history s)))]"
    by (simp add: tick fold_warning_fields)
  have "\<exists>new. stats_log (fold (\<lambda>u. close_inactive_session u (nt u)) us m2) = stats_log m2 @ new"
    for us m2
  proof (induction us arbitrary: m2)
    case Nil
    then show ?case by simp
  next
    case (Cons v us)
    obtain b where "stats_log (fold (\<lambda>u. close_inactive_session u (nt u)) us
                       (close_inactive_session v (nt v) m2))
                    = stats_log (close_inactive_session v (nt v) m2) @ b"
      using Cons by blast
    then show ?case by (simp add: close_inactive_session_stats)
  qed
  then obtain new where "stats_log (cleanup_tick ts now nt m) = stats_log ?m1 @ new"
    unfolding tick by blast
  then have new: "stats_log (cleanup_tick ts now nt m) = stats_log m @ new"
    by (simp add: fold_warning_fields)
  with f have "filter (\<lambda>e. fst e = u) new = [(u, Suc (length (message_history s)))]"
    by simp
  then show ?thesis by (simp add: stats_for_def new)
qed

lemma closing_is_not_warning: "closing_message \<noteq> warning_message m"
  by (simp add: closing_message_def warning_message_def ascii_def)

lemma cleanup_ticks_in_window:
  assumes "distinct (map fst (sessions m))" and "map_of (sessions m) u = Some s"
    and "list_all (\<lambda>tk. real_of_int (inactivity_warning m) \<le> inactive_time ts (fst tk) s
                      \<and> inactive_time ts (fst tk) s < real_of_int (session_timeout m)) ticks"
  shows "\<exists>s'. map_of (sessions (cleanup_ticks ts ticks m)) u = Some s'
           \<and> last_activity s' = last_activity s
           \<and> inactivity_warning_sent s' = (inactivity_warning_sent s \<or> ticks \<noteq> [])
           \<and> sent_to u m (cleanup_ticks ts ticks m) =
               (if send_message_func m = None \<or> inactivity_warning_sent s \<or> ticks = []
                then [] else [warning_message m])"
  using assms
proof (induction ticks arbitrary: m s)
  case Nil
  then show ?case by (simp add: sent_to_def)
next
  case (Cons tk ticks)
  obtain now nt where tk: "tk = (now, nt)" by (cases tk)
  let ?m' = "cleanup_tick ts now nt m"
  have win: "real_of_int (inactivity_warning m) \<le> inactive_time ts now s"
            "inactive_time ts now s < real_of_int (session_timeout m)"
    using Cons.prems(3) by (simp_all add: tk)
  have nc: "\<not> due_close ts (session_timeout m) now s"
    using win by (simp add: due_close_def)
  have dw: "due_warning ts (session_timeout m) (inactivity_warning m) now s
              \<longleftrightarrow> \<not> inactivity_warning_sent s"
    using win nc by (simp add: due_warning_def)
  define s1 where "s1 = (if inactivity_warning_sent s then s
     else s\<lparr>inactivity_warning_sent := True,
            message_history := message_history s @ [system_notice (warning_message m) (nt u)]\<rparr>)"
  have l1: "map_of (sessions ?m') u = Some s1"
    using Cons.prems(1,2) nc dw by (simp add: cleanup_tick_lookup s1_def)
  have sent1: "sent_to u m ?m' =
      (if send_message_func m = None \<or> inactivity_warning_sent s then [] else [warning_message m])"
    using Cons.prems(1,2) nc dw by (simp add: cleanup_tick_sent_to)
  have d1: "distinct (map fst (sessions ?m'))"
    using Cons.prems(1) by (rule cleanup_tick_distinct)
  have la: "last_activity s1 = last_activity s" and fl: "inactivity_warning_sent s1"
    by (simp_all add: s1_def)
  have w1: "list_all (\<lambda>tk. real_of_int (inactivity_warning ?m') \<le> inactive_time ts (fst tk) s1
                      \<and> inactive_time ts (fst tk) s1 < real_of_int (session_timeout ?m')) ticks"
    using Cons.prems(3) by (simp add: cleanup_tick_fields inactive_time_def la)
  from Cons.IH[OF d1 l1 w1] obtain s' where
    s': "map_of (sessions (cleanup_ticks ts ticks ?m')) u = Some s'"
        "last_activity s' = last_activity s1" "inactivity_warning_sent s'"
        "sent_to u ?m' (cleanup_ticks ts ticks ?m') = []"
    using fl by auto
  show ?case
    unfolding tk
    by (simp only: cleanup_ticks_step) (simp add: s' la sent1)
qed

lemma cleanup_tick_flagged:
  assumes "distinct (map fst (sessions m))" and "map_of (sessions m) u = Some s"
    and "inactivity_warning_sent s"
  shows "warning_message m \<notin> set (sent_to u m (cleanup_tick ts now nt m))"
  using assms closing_is_not_warning[of m]
  by (auto simp add: cleanup_tick_sent_to due_warning_def)

subsection \<open>The sample data\<close>

lemma sample_gap:
  "inactive_time exact_seconds (sample_time mi us) (s\<lparr>last_activity := sample_time mi' us'\<rparr>)
     = (real mi * 60000000 + real us - real mi' * 60000000 - real us') / 1000000"
  by (simp add: inactive_time_def exact_seconds_def to_micro_def sample_time_def)

lemma sample_manager_lookup:
  "distinct (map fst (sessions (sample_manager f)))"
  "map_of (sessions (sample_manager f)) ''5215550001'' = Some sample_session"
  "session_timeout (sample_manager f) = 600"
  "inactivity_warning (sample_manager f) = 300"
  "send_message_func (sample_manager f) = f"
  by (simp_all add: sample_manager_def)

lemma sample_session_fields:
  "last_activity sample_session = sample_time 0 0"
  "\<not> inactivity_warning_sent sample_session"
  "\<not> closing_notice_sent sample_session"
  "length (message_history sample_session) = 2"
  by (simp_all add: sample_session_def)

lemma sample_session_gap:
  "inactive_time exact_seconds (sample_time mi us) sample_session
     = (real mi * 60000000 + real us) / 1000000"
  using sample_gap[where s = sample_session and mi' = 0 and us' = 0, of mi us]
  by (simp add: sample_session_def)

subsection \<open>Closing an expired session\<close>

text \<open>
  The quotient \<^verbatim>\<open>total_seconds\<close> computes is rounded to the nearest float, so it grows
  with the microseconds and is exact where the quotient is a float. For every function
  with these two properties at the timeout, a session whose inactivity is at least the
  timeout passes the first test of the scan.
\<close>

lemma inactive_time_reaches:
  assumes "mono total_seconds"
    and "total_seconds (timeout * 1000000) = real_of_int timeout"
    and "timeout * 1000000 \<le> to_micro now - to_micro (last_activity s)"
  shows "real_of_int timeout \<le> inactive_time total_seconds now s"
  using monoD[OF assms(1,3)] assms(2) by (simp add: inactive_time_def)

lemma cleanup_tick_passes_closing:
  assumes "distinct (map fst (sessions m))" and "map_of (sessions m) u = Some s"
    and "due_close ts (session_timeout m) now s"
  shows "\<exists>m0 rest. cleanup_tick ts now nt m
             = fold (\<lambda>v. close_inactive_session v (nt v)) rest
                 (discard_session u (deliver_notice u closing_message (nt u) m0))
           \<and> map_of (sessions m0) u = Some (s\<lparr>closing_notice_sent := True\<rparr>)"
proof -
  let ?T = "session_timeout m" and ?W = "inactivity_warning m"
  let ?ss = "map (\<lambda>(u, s). (u, marked ts ?T ?W now s)) (sessions m)"
  let ?warn = "map fst (filter (\<lambda>(u, s). due_warning ts ?T ?W now s) (sessions m))"
  let ?close = "map fst (filter (\<lambda>(u, s). due_close ts ?T now s) (sessions m))"
  let ?m0 = "m\<lparr>sessions := ?ss\<rparr>"
  let ?m1 = "fold (\<lambda>u. send_inactivity_warning u (nt u)) ?warn ?m0"
  have tick: "cleanup_tick ts now nt m = fold (\<lambda>u. close_inactive_session u (nt u)) ?close ?m1"
    by (simp add: cleanup_tick_def scan_sessions_eq)
  have "\<not> due_warning ts ?T ?W now s"
    using assms(3) by (simp add: due_warning_def)
  then have "u \<notin> set ?warn"
    using collected_member[OF assms(1,2), of "due_warning ts ?T ?W now"] by simp
  then have "map_of (sessions ?m1) u = map_of (sessions ?m0) u"
    by (rule fold_warning_other)
  then have l1: "map_of (sessions ?m1) u = Some (s\<lparr>closing_notice_sent := True\<rparr>)"
    using assms(2,3) by (simp add: marked_lookup marked_def)
  have "u \<in> set ?close"
    using collected_member[OF assms(1,2), of "due_close ts ?T now"] assms(3) by simp
  then obtain xs ys where split: "?close = xs @ u # ys" and nx: "u \<notin> set xs"
    by (meson split_list_first)
  let ?mx = "fold (\<lambda>u. close_inactive_session u (nt u)) xs ?m1"
  have "map_of (sessions ?mx) u = map_of (sessions ?m1) u"
    using nx by (rule fold_close_other)
  then have lx: "map_of (sessions ?mx) u = Some (s\<lparr>closing_notice_sent := True\<rparr>)"
    using l1 by simp
  have "cleanup_tick ts now nt m
          = fold (\<lambda>v. close_inactive_session v (nt v)) ys
              (discard_session u (deliver_notice u closing_message (nt u) ?mx))"
    unfolding tick split by (simp add: close_inactive_session_def)
  then show ?thesis using lx by blast
qed

text \<open>
  C1. The manager is wired with its send function. For a session whose inactivity, as
  the scan measures it, is at least the timeout and whose closing flag is not set, one
  pass of the sweeper
  \<^item> sends that user exactly one message, the closing notice;
  \<^item> goes through a state \<open>m1\<close> in which the session's history is the old history followed
    by the closing notice (role assistant, the closing text, type system), and discards
    the session from that state, logging one entry more than the history had;
  \<^item> leaves no session for the user, so that \<^verbatim>\<open>is_session_active\<close> is false at any later
    time;
  \<^item> and no later pass sends the user anything.
\<close>

theorem sweep_closes_expired_session:
  assumes "distinct (map fst (sessions m))"
    and "map_of (sessions m) user_id = Some s"
    and "real_of_int (session_timeout m) \<le> inactive_time total_seconds now s"
    and "\<not> closing_notice_sent s"
    and "send_message_func m = Some f"
  shows "sent_to user_id m (cleanup_tick total_seconds now nt m) = [closing_message]
       \<and> (\<exists>m0 m1 rest.
             m1 = deliver_notice user_id closing_message (nt user_id) m0
           \<and> map_of (sessions m1) user_id
               = Some (s\<lparr>closing_notice_sent := True,
                          message_history := message_history s @
                            [\<lparr>role = ''assistant'', content = closing_message,
                              timestamp = isoformat (nt user_id), msg_type = Some ''system''\<rparr>]\<rparr>)
           \<and> cleanup_tick total_seconds now nt m
               = fold (\<lambda>v. close_inactive_session v (nt v)) rest (discard_session user_id m1))
       \<and> stats_for user_id m (cleanup_tick total_seconds now nt m)
           = [length (message_history s) + 1]
       \<and> map_of (sessions (cleanup_tick total_seconds now nt m)) user_id = None
       \<and> \<not> is_session_active user_id t (cleanup_tick total_seconds now nt m)
       \<and> sent_to user_id (cleanup_tick total_seconds now nt m)
            (cleanup_ticks total_seconds later (cleanup_tick total_seconds now nt m)) = []"
proof -
  let ?m' = "cleanup_tick total_seconds now nt m"
  have dc: "due_close total_seconds (session_timeout m) now s"
    using assms(3,4) by (simp add: due_close_def)
  have gone: "map_of (sessions ?m') user_id = None"
    using assms(1,2) dc by (simp add: cleanup_tick_lookup)
  have sent: "sent_to user_id m ?m' = [closing_message]"
    using assms(1,2,5) dc by (simp add: cleanup_tick_sent_to)
  obtain m0 rest where pass:
      "?m' = fold (\<lambda>v. close_inactive_session v (nt v)) rest
               (discard_session user_id (deliver_notice user_id closing_message (nt user_id) m0))"
      "map_of (sessions m0) user_id = Some (s\<lparr>closing_notice_sent := True\<rparr>)"
    using cleanup_tick_passes_closing[OF assms(1,2) dc] by blast
  have appended: "map_of (sessions (deliver_notice user_id closing_message (nt user_id) m0)) user_id
      = Some (s\<lparr>closing_notice_sent := True,
                 message_history := message_history s @
                   [\<lparr>role = ''assistant'', content = closing_message,
                     timestamp = isoformat (nt user_id), msg_type = Some ''system''\<rparr>]\<rparr>)"
    using pass(2) by (simp add: deliver_notice_lookup system_notice_def)
  have through: "\<exists>m0 m1 rest.
             m1 = deliver_notice user_id closing_message (nt user_id) m0
           \<and> map_of (sessions m1) user_id
               = Some (s\<lparr>closing_notice_sent := True,
                          message_history := message_history s @
                            [\<lparr>role = ''assistant'', content = closing_message,
                              timestamp = isoformat (nt user_id), msg_type = Some ''system''\<rparr>]\<rparr>)
           \<and> ?m' = fold (\<lambda>v. close_inactive_session v (nt v)) rest (discard_session user_id m1)"
    using pass(1) appended by blast
  have stats: "stats_for user_id m ?m' = [length (message_history s) + 1]"
    using cleanup_tick_stats[OF assms(1,2) dc] by simp
  have inactive: "\<not> is_session_active user_id t ?m'"
    using gone by (simp add: is_session_active_def)
  have later: "sent_to user_id ?m' (cleanup_ticks total_seconds later ?m') = []"
    using cleanup_ticks_absent[OF cleanup_tick_distinct[OF assms(1)] gone] by blast
  show ?thesis
    using sent through stats gone inactive later by blast
qed

theorem sweep_closes_expired_session_witness:
  "sent_to ''5215550001'' (sample_manager (Some Send_whatsapp_message_background))
     (cleanup_tick exact_seconds (sample_time 10 0) (\<lambda>u. sample_time 10 5)
        (sample_manager (Some Send_whatsapp_message_background))) = [closing_message]
   \<and> (\<exists>m0 m1 rest.
         m1 = deliver_notice ''5215550001'' closing_message (sample_time 10 5) m0
       \<and> map_of (sessions m1) ''5215550001''
           = Some (sample_session\<lparr>closing_notice_sent := True,
                      message_history := message_history sample_session @
                        [\<lparr>role = ''assistant'', content = closing_message,
                          timestamp = isoformat (sample_time 10 5), msg_type = Some ''system''\<rparr>]\<rparr>)
       \<and> cleanup_tick exact_seconds (sample_time 10 0) (\<lambda>u. sample_time 10 5)
            (sample_manager (Some Send_whatsapp_message_background))
           = fold (\<lambda>v. close_inactive_session v (sample_time 10 5)) rest
               (discard_session ''5215550001'' m1))
   \<and> stats_for ''5215550001'' (sample_manager (Some Send_whatsapp_message_background))
       (cleanup_tick exact_seconds (sample_time 10 0) (\<lambda>u. sample_time 10 5)
          (sample_manager (Some Send_whatsapp_message_background))) = [3]
   \<and> map_of (sessions (cleanup_tick exact_seconds (sample_time 10 0) (\<lambda>u. sample_time 10 5)
        (sample_manager (Some Send_whatsapp_message_background)))) ''5215550001'' = None
   \<and> \<not> is_session_active ''5215550001'' (sample_time 10 7)
        (cleanup_tick exact_seconds (sample_time 10 0) (\<lambda>u. sample_time 10 5)
           (sample_manager (Some Send_whatsapp_message_background)))
   \<and> sent_to ''5215550001''
       (cleanup_tick exact_seconds (sample_time 10 0) (\<lambda>u. sample_time 10 5)
          (sample_manager (Some Send_whatsapp_message_background)))
       (cleanup_ticks exact_seconds [(sample_time 11 0, \<lambda>u. sample_time 11 5)]
          (cleanup_tick exact_seconds (sample_time 10 0) (\<lambda>u. sample_time 10 5)
             (sample_manager (Some Send_whatsapp_message_background)))) = []"
  using sweep_closes_expired_session
          [where m = "sample_manager (Some Send_whatsapp_message_background)"
             and user_id = "''5215550001''" and s = sample_session
             and total_seconds = exact_seconds and now = "sample_time 10 0"
             and nt = "\<lambda>u. sample_time 10 5" and t = "sample_time 10 7"
             and later = "[(sample_time 11 0, \<lambda>u. sample_time 11 5)]"
             and f = Send_whatsapp_message_background]
  by (simp add: sample_manager_lookup sample_session_fields sample_session_gap)

subsection \<open>What a notice changes\<close>

text \<open>
  C10. For a user who has a session, the warning leaves in the store the same session
  with one entry appended to its history, tagged \<^verbatim>\<open>system\<close>: the last activity, both
  flags and the message counter are those of before. The closing notice does the same
  append before the session is discarded.
\<close>

theorem notices_only_append:
  assumes "map_of (sessions m) user_id = Some s"
  shows "map_of (sessions (send_inactivity_warning user_id t m)) user_id
           = Some (s\<lparr>message_history :=
                      message_history s @ [system_notice (warning_message m) t]\<rparr>)
       \<and> close_inactive_session user_id t m
           = discard_session user_id (deliver_notice user_id closing_message t m)
       \<and> map_of (sessions (deliver_notice user_id closing_message t m)) user_id
           = Some (s\<lparr>message_history := message_history s @ [system_notice closing_message t]\<rparr>)
       \<and> msg_type (system_notice body t) = Some ''system''"
  using assms
  by (simp add: send_inactivity_warning_def close_inactive_session_def deliver_notice_lookup
      system_notice_def)

theorem notices_only_append_witness:
  "map_of (sessions (send_inactivity_warning ''5215550001'' (sample_time 5 1)
                       (sample_manager None))) ''5215550001''
     = Some (sample_session\<lparr>message_history :=
              message_history sample_session
              @ [system_notice (warning_message (sample_manager None)) (sample_time 5 1)]\<rparr>)
   \<and> close_inactive_session ''5215550001'' (sample_time 5 1) (sample_manager None)
       = discard_session ''5215550001''
           (deliver_notice ''5215550001'' closing_message (sample_time 5 1) (sample_manager None))
   \<and> map_of (sessions (deliver_notice ''5215550001'' closing_message (sample_time 5 1)
                         (sample_manager None))) ''5215550001''
       = Some (sample_session\<lparr>message_history :=
                message_history sample_session
                @ [system_notice closing_message (sample_time 5 1)]\<rparr>)
   \<and> msg_type (system_notice closing_message (sample_time 5 1)) = Some ''system''"
  using notices_only_append
          [of "sample_manager None" "''5215550001''" sample_session "sample_time 5 1"
              closing_message]
  by (simp add: sample_manager_lookup)

section \<open>Properties of the message counter\<close>

lemma fold_kwargs_meta:
  "\<not> list_ex sets_meta kwargs \<Longrightarrow> meta (fold apply_kwarg kwargs s) = meta s"
proof (induction kwargs arbitrary: s)
  case Nil
  then show ?case by simp
next
  case (Cons k kwargs)
  then show ?case by (cases k) simp_all
qed

lemma load_entries_other:
  "u \<notin> set (map fst js) \<Longrightarrow> map_of (load_entries js ss) u = map_of ss u"
proof (induction js arbitrary: ss)
  case Nil
  then show ?case by simp
next
  case (Cons e js)
  obtain v j where e: "e = (v, j)" by (cases e)
  show ?case
    using Cons by (auto simp add: e AList.update_conv' split: option.splits)
qed

lemma load_entries_distinct:
  "distinct (map fst ss) \<Longrightarrow> distinct (map fst (load_entries js ss))"
proof (induction js arbitrary: ss)
  case Nil
  then show ?case by simp
next
  case (Cons e js)
  obtain v j where e: "e = (v, j)" by (cases e)
  show ?case
    using Cons by (auto simp add: e AList.distinct_update split: option.splits)
qed

lemma apply_op_distinct:
  "distinct (map fst (sessions m)) \<Longrightarrow> distinct (map fst (sessions (apply_op ts op m)))"
proof (cases op)
  case (Cleanup_tick now nt)
  assume "distinct (map fst (sessions m))"
  then show ?thesis by (simp add: Cleanup_tick cleanup_tick_distinct)
next
  case (Load_sessions contents)
  assume "distinct (map fst (sessions m))"
  then show ?thesis
    by (simp add: Load_sessions load_sessions_def load_entries_distinct split: file_contents.splits)
qed (auto simp add: get_session_def update_session_def restart_session_def end_session_def
      add_message_to_history_def set_send_message_function_def Let_def
      AList.distinct_update AList.distinct_delete split: option.splits)

lemma apply_op_count:
  assumes "distinct (map fst (sessions m))"
    and "map_of (sessions m) u = Some s"
    and "map_of (sessions (apply_op ts op m)) u = Some s'"
    and "\<not> overwrites u op"
  shows "message_count s' = message_count s + int (appends_for u [op])"
proof (cases op)
  case (Get_session v now)
  then show ?thesis
    using assms(2-4)
    by (auto simp add: get_session_def touch_def message_count_def AList.update_conv'
        split: option.splits if_splits)
next
  case (Update_session v kwargs now)
  then show ?thesis
    using assms(2-4)
    by (auto simp add: update_session_def touch_def message_count_def AList.update_conv'
        fold_kwargs_meta split: option.splits if_splits)
next
  case (Restart_session v now)
  then show ?thesis
    using assms(2-4)
    by (auto simp add: restart_session_def new_session_def message_count_def meta_get_def
        AList.update_conv' split: option.splits if_splits)
next
  case (End_session v)
  then show ?thesis
    using assms(2-4)
    by (auto simp add: end_session_def AList.delete_conv' split: option.splits if_splits)
next
  case (Add_message_to_history v rl body now)
  then show ?thesis
    using assms(2-4)
    by (auto simp add: add_message_to_history_def touch_def message_count_def meta_get_def
        Let_def AList.update_conv' split: option.splits if_splits)
next
  case (Load_sessions contents)
  then show ?thesis
    using assms(2-4)
    by (cases contents) (auto simp add: load_sessions_def load_entries_other)
next
  case (Cleanup_tick now nt)
  then show ?thesis
    using assms(2-4)
    by (auto simp add: cleanup_tick_lookup[OF assms(1)] message_count_def split: if_splits)
qed (use assms(2-4) in \<open>auto simp add: set_send_message_function_def\<close>)

lemma run_ops_count:
  assumes "distinct (map fst (sessions m))"
    and "map_of (sessions m) u = Some s"
    and "kept ts u ops m"
    and "list_all (\<lambda>op. \<not> overwrites u op) ops"
  shows "\<exists>s'. map_of (sessions (run_ops ts ops m)) u = Some s'
            \<and> message_count s' = message_count s + int (appends_for u ops)"
  using assms
proof (induction ops arbitrary: m s)
  case Nil
  then show ?case by simp
next
  case (Cons op ops)
  from Cons.prems(3) have k: "kept ts u ops (apply_op ts op m)" by simp
  then have "map_of (sessions (apply_op ts op m)) u \<noteq> None" by (cases ops) simp_all
  then obtain s1 where s1: "map_of (sessions (apply_op ts op m)) u = Some s1" by blast
  have c1: "message_count s1 = message_count s + int (appends_for u [op])"
    using apply_op_count[OF Cons.prems(1,2) s1] Cons.prems(4) by simp
  have d1: "distinct (map fst (sessions (apply_op ts op m)))"
    using Cons.prems(1) by (rule apply_op_distinct)
  from Cons.IH[OF d1 s1 k] Cons.prems(4)
  obtain s' where s': "map_of (sessions (run_ops ts ops (apply_op ts op m))) u = Some s'"
      "message_count s' = message_count s1 + int (appends_for u ops)"
    by auto
  have "appends_for u (op # ops) = appends_for u [op] + appends_for u ops"
    by (cases op) simp_all
  then show ?case using s' c1 by simp
qed

lemma kept_take: "kept ts u ops m \<Longrightarrow> kept ts u (take n ops) m"
proof (induction ops arbitrary: n m)
  case Nil
  then show ?case by simp
next
  case (Cons op ops)
  then show ?case by (cases n) simp_all
qed

lemma list_all_take: "list_all P xs \<Longrightarrow> list_all P (take n xs)"
  by (auto simp add: list_all_iff dest: in_set_takeD)

text \<open>
  C6 as stated fails: \<^verbatim>\<open>update_session\<close> overwrites any key of the session it is given,
  and a call with the keyword \<^verbatim>\<open>meta\<close> changes the counter without any append.
\<close>

theorem update_session_rewrites_count:
  "map_option message_count
     (map_of (sessions (sample_manager (Some Send_whatsapp_message_background)))
        ''5215550001'') = Some 2
   \<and> map_option message_count
        (map_of (sessions (apply_op exact_seconds
           (Update_session ''5215550001''
              [Set_meta \<lparr>total_messages = Some 7, session_restarts = Some 0\<rparr>] (sample_time 2 0))
           (sample_manager (Some Send_whatsapp_message_background)))) ''5215550001'') = Some 7
   \<and> appends_for ''5215550001''
        [Update_session ''5215550001''
           [Set_meta \<lparr>total_messages = Some 7, session_restarts = Some 0\<rparr>] (sample_time 2 0)] = 0"
  by (simp add: sample_manager_def sample_session_def update_session_def touch_def
      message_count_def meta_get_def)

text \<open>
  C6, amended. Take a user without a session, the session \<^verbatim>\<open>get_session\<close> creates for the
  user, and any run of store operations and sweeper passes from there in which the user's
  session is never absent, and which holds neither a load of a file with a record for the
  user nor an \<^verbatim>\<open>update_session\<close> that passes the keyword \<^verbatim>\<open>meta\<close>, for whichever user. At
  every point of the run (after its first \<open>n\<close> calls, for every \<open>n\<close>) the counter of the
  session equals the number of \<^verbatim>\<open>add_message_to_history\<close> calls made for the user up to
  that point.
\<close>

theorem message_count_counts_appends:
  assumes "distinct (map fst (sessions m))"
    and "map_of (sessions m) user_id = None"
    and "kept total_seconds user_id ops (get_session user_id now m)"
    and "list_all (\<lambda>op. \<not> overwrites user_id op) ops"
  shows "\<exists>s'. map_of (sessions (run_ops total_seconds (take n ops) (get_session user_id now m)))
                 user_id = Some s'
             \<and> message_count s' = int (appends_for user_id (take n ops))"
proof -
  let ?s0 = "new_session now \<lparr>total_messages = Some 0, session_restarts = Some 0\<rparr>"
  have d: "distinct (map fst (sessions (get_session user_id now m)))"
    using assms(1) apply_op_distinct[of m total_seconds "Get_session user_id now"] by simp
  have l: "map_of (sessions (get_session user_id now m)) user_id = Some ?s0"
    using assms(2) by (simp add: get_session_def AList.update_conv')
  have c: "message_count ?s0 = 0"
    by (simp add: message_count_def new_session_def meta_get_def)
  have k: "kept total_seconds user_id (take n ops) (get_session user_id now m)"
    using assms(3) by (rule kept_take)
  have o: "list_all (\<lambda>op. \<not> overwrites user_id op) (take n ops)"
    using assms(4) by (rule list_all_take)
  show ?thesis
    using run_ops_count[OF d l k o] c by simp
qed

theorem message_count_counts_appends_witness:
  "(\<exists>s'. map_of (sessions (run_ops exact_seconds
        [Add_message_to_history ''5215550002'' ''user'' (ascii ''hola'') (sample_time 2 0),
         Update_session ''5215550002'' [Set_state ''AWAITING_QUERY''] (sample_time 2 5),
         Restart_session ''5215550002'' (sample_time 3 0),
         Add_message_to_history ''5215550001'' ''user'' (ascii ''hola'') (sample_time 3 2),
         Add_message_to_history ''5215550002'' ''assistant'' (ascii ''Hola'') (sample_time 3 5)]
        (get_session ''5215550002'' (sample_time 0 5)
           (sample_manager (Some Send_whatsapp_message_background))))) ''5215550002''
        = Some s' \<and> message_count s' = 2)
   \<and> (\<exists>s'. map_of (sessions (run_ops exact_seconds
        [Add_message_to_history ''5215550002'' ''user'' (ascii ''hola'') (sample_time 2 0),
         Update_session ''5215550002'' [Set_state ''AWAITING_QUERY''] (sample_time 2 5),
         Restart_session ''5215550002'' (sample_time 3 0)]
        (get_session ''5215550002'' (sample_time 0 5)
           (sample_manager (Some Send_whatsapp_message_background))))) ''5215550002''
        = Some s' \<and> message_count s' = 1)"
proof -
  let ?ops = "[Add_message_to_history ''5215550002'' ''user'' (ascii ''hola'') (sample_time 2 0),
         Update_session ''5215550002'' [Set_state ''AWAITING_QUERY''] (sample_time 2 5),
         Restart_session ''5215550002'' (sample_time 3 0),
         Add_message_to_history ''5215550001'' ''user'' (ascii ''hola'') (sample_time 3 2),
         Add_message_to_history ''5215550002'' ''assistant'' (ascii ''Hola'') (sample_time 3 5)]"
  have k: "kept exact_seconds ''5215550002'' ?ops
             (get_session ''5215550002'' (sample_time 0 5)
                (sample_manager (Some Send_whatsapp_message_background)))"
    by (simp add: sample_manager_def get_session_def add_message_to_history_def
        update_session_def restart_session_def Let_def)
  show ?thesis
    using message_count_counts_appends
            [where m = "sample_manager (Some Send_whatsapp_message_background)"
               and user_id = "''5215550002''" and ops = ?ops
               and now = "sample_time 0 5" and total_seconds = exact_seconds and n = 5]
          message_count_counts_appends
            [where m = "sample_manager (Some Send_whatsapp_message_background)"
               and user_id = "''5215550002''" and ops = ?ops
               and now = "sample_time 0 5" and total_seconds = exact_seconds and n = 3] k
    by (simp add: sample_manager_lookup sample_manager_def)
qed

section \<open>Properties of the warnings\<close>

subsection \<open>What one call sends\<close>

lemma apply_op_outbox:
  "(\<forall>now nt. op \<noteq> Cleanup_tick now nt) \<Longrightarrow> outbox (apply_op ts op m) = outbox m"
  by (cases op)
     (auto simp add: get_session_def update_session_def restart_session_def end_session_def
        add_message_to_history_def set_send_message_function_def load_sessions_def Let_def
        split: option.splits file_contents.splits)

lemma apply_op_extends: "\<exists>new. outbox (apply_op ts op m) = outbox m @ new"
proof (cases "\<exists>now nt. op = Cleanup_tick now nt")
  case True
  then show ?thesis using cleanup_tick_extends by auto
next
  case False
  then show ?thesis using apply_op_outbox[of op ts m] by simp
qed

lemma run_ops_extends: "\<exists>new. outbox (run_ops ts ops m) = outbox m @ new"
proof (induction ops arbitrary: m)
  case Nil
  then show ?case by simp
next
  case (Cons op ops)
  obtain a where a: "outbox (apply_op ts op m) = outbox m @ a"
    using apply_op_extends by blast
  obtain b where "outbox (run_ops ts ops (apply_op ts op m)) = outbox (apply_op ts op m) @ b"
    using Cons by blast
  then show ?case by (simp add: a)
qed

lemma apply_op_thresholds:
  "session_timeout (apply_op ts op m) = session_timeout m
   \<and> inactivity_warning (apply_op ts op m) = inactivity_warning m"
  by (cases op)
     (auto simp add: get_session_def update_session_def restart_session_def end_session_def
        add_message_to_history_def set_send_message_function_def load_sessions_def Let_def
        cleanup_tick_fields
        split: option.splits file_contents.splits)

lemma apply_op_warning_message: "warning_message (apply_op ts op m) = warning_message m"
  using apply_op_thresholds[of ts op m] by (simp add: warning_message_def)

lemma warnings_to_step:
  "warnings_to u m (run_ops ts (op # ops) m) =
     warnings_to u m (apply_op ts op m)
     @ warnings_to u (apply_op ts op m) (run_ops ts ops (apply_op ts op m))"
  using sent_to_trans[OF apply_op_extends run_ops_extends, where u = u and m = m]
  by (simp add: warnings_to_def apply_op_warning_message)

text \<open>One call sends a user at most one warning, and after a warning the flag is set.\<close>

lemma apply_op_warns:
  assumes "distinct (map fst (sessions m))"
  shows "length (warnings_to u m (apply_op ts op m)) \<le> 1
       \<and> (warnings_to u m (apply_op ts op m) \<noteq> [] \<longrightarrow>
            (\<exists>s'. map_of (sessions (apply_op ts op m)) u = Some s' \<and> inactivity_warning_sent s'))"
proof (cases "\<exists>now nt. op = Cleanup_tick now nt")
  case True
  then obtain now nt where op: "op = Cleanup_tick now nt" by blast
  show ?thesis
    using closing_is_not_warning[of m]
    by (auto simp add: op warnings_to_def cleanup_tick_sent_to[OF assms]
        cleanup_tick_lookup[OF assms] due_warning_def split: option.splits)
next
  case False
  then have "outbox (apply_op ts op m) = outbox m"
    using apply_op_outbox[of op ts m] by simp
  then show ?thesis by (simp add: warnings_to_def sent_to_def)
qed

text \<open>
  While a user has no session, or a session with the warning flag set, a call that does
  not re-arm the warning sends the user no warning and leaves that so.
\<close>

lemma apply_op_quiet:
  assumes "distinct (map fst (sessions m))"
    and "\<forall>s. map_of (sessions m) u = Some s \<longrightarrow> inactivity_warning_sent s"
    and "\<not> rearms u op"
  shows "warnings_to u m (apply_op ts op m) = []
       \<and> (\<forall>s'. map_of (sessions (apply_op ts op m)) u = Some s' \<longrightarrow> inactivity_warning_sent s')"
proof (cases op)
  case (Get_session v now)
  then show ?thesis
    using assms(2,3)
    by (auto simp add: warnings_to_def sent_to_def get_session_def AList.update_conv'
        split: option.splits)
next
  case (Update_session v kwargs now)
  then show ?thesis
    using assms(2,3)
    by (auto simp add: warnings_to_def sent_to_def update_session_def AList.update_conv'
        split: option.splits)
next
  case (Restart_session v now)
  then show ?thesis
    using assms(2,3)
    by (auto simp add: warnings_to_def sent_to_def restart_session_def AList.update_conv' Let_def
        split: option.splits)
next
  case (End_session v)
  then show ?thesis
    using assms(2,3)
    by (auto simp add: warnings_to_def sent_to_def end_session_def AList.delete_conv'
        split: option.splits if_splits)
next
  case (Add_message_to_history v rl body now)
  then show ?thesis
    using assms(2,3)
    by (auto simp add: warnings_to_def sent_to_def add_message_to_history_def
        AList.update_conv' Let_def split: option.splits)
next
  case (Load_sessions contents)
  then show ?thesis
    using assms(2,3)
    by (cases contents)
       (auto simp add: warnings_to_def sent_to_def load_sessions_def load_entries_other)
next
  case (Cleanup_tick now nt)
  then show ?thesis
    using assms(2) closing_is_not_warning[of m]
    by (auto simp add: warnings_to_def cleanup_tick_sent_to[OF assms(1)]
        cleanup_tick_lookup[OF assms(1)] due_warning_def split: option.splits if_splits)
qed (use assms(2) in \<open>auto simp add: warnings_to_def sent_to_def set_send_message_function_def\<close>)

lemma run_ops_quiet:
  assumes "distinct (map fst (sessions m))"
    and "\<forall>s. map_of (sessions m) u = Some s \<longrightarrow> inactivity_warning_sent s"
    and "list_all (\<lambda>op. \<not> rearms u op) ops"
  shows "warnings_to u m (run_ops ts ops m) = []"
  using assms
proof (induction ops arbitrary: m)
  case Nil
  then show ?case by (simp add: warnings_to_def sent_to_def)
next
  case (Cons op ops)
  from Cons.prems(3) have r: "\<not> rearms u op" and rs: "list_all (\<lambda>op. \<not> rearms u op) ops"
    by simp_all
  note q = apply_op_quiet[OF Cons.prems(1,2) r, of ts]
  have d: "distinct (map fst (sessions (apply_op ts op m)))"
    using Cons.prems(1) by (rule apply_op_distinct)
  have "warnings_to u (apply_op ts op m) (run_ops ts ops (apply_op ts op m)) = []"
    using Cons.IH[OF d _ rs] q by blast
  then show ?case using q by (simp only: warnings_to_step) simp
qed

lemma run_ops_warns_once:
  assumes "distinct (map fst (sessions m))"
    and "list_all (\<lambda>op. \<not> rearms u op) ops"
  shows "length (warnings_to u m (run_ops ts ops m)) \<le> 1"
  using assms
proof (induction ops arbitrary: m)
  case Nil
  then show ?case by (simp add: warnings_to_def sent_to_def)
next
  case (Cons op ops)
  from Cons.prems(2) have rs: "list_all (\<lambda>op. \<not> rearms u op) ops" by simp
  note w = apply_op_warns[OF Cons.prems(1), of u ts op]
  have d: "distinct (map fst (sessions (apply_op ts op m)))"
    using Cons.prems(1) by (rule apply_op_distinct)
  show ?case
  proof (cases "warnings_to u m (apply_op ts op m) = []")
    case True
    then show ?thesis
      using Cons.IH[OF d rs] by (simp only: warnings_to_step) simp
  next
    case False
    then have "\<forall>s. map_of (sessions (apply_op ts op m)) u = Some s \<longrightarrow> inactivity_warning_sent s"
      using w by auto
    then have "warnings_to u (apply_op ts op m) (run_ops ts ops (apply_op ts op m)) = []"
      using run_ops_quiet[OF d _ rs] by blast
    then show ?thesis
      using w by (simp only: warnings_to_step) simp
  qed
qed

text \<open>
  C2 as stated fails: \<^verbatim>\<open>restart_session\<close> clears the warning flag too. A pass warns the
  user, the user's session is restarted, and a later pass warns the user again, with no
  \<^verbatim>\<open>get_session\<close>, \<^verbatim>\<open>update_session\<close> or \<^verbatim>\<open>add_message_to_history\<close> in between.
\<close>

theorem restart_session_rearms_warning:
  "warnings_to ''5215550001'' (sample_manager (Some Send_whatsapp_message_background))
     (run_ops exact_seconds
        [Cleanup_tick (sample_time 5 0) (\<lambda>u. sample_time 5 2),
         Restart_session ''5215550001'' (sample_time 6 0),
         Cleanup_tick (sample_time 11 0) (\<lambda>u. sample_time 11 2)]
        (sample_manager (Some Send_whatsapp_message_background)))
     = [warning_message (sample_manager (Some Send_whatsapp_message_background)),
        warning_message (sample_manager (Some Send_whatsapp_message_background))]"
proof -
  let ?M = "sample_manager (Some Send_whatsapp_message_background)"
  let ?u = "''5215550001''"
  let ?m1 = "cleanup_tick exact_seconds (sample_time 5 0) (\<lambda>u. sample_time 5 2) ?M"
  let ?m2 = "restart_session ?u (sample_time 6 0) ?m1"
  let ?m3 = "cleanup_tick exact_seconds (sample_time 11 0) (\<lambda>u. sample_time 11 2) ?m2"
  have dM: "distinct (map fst (sessions ?M))" by (rule sample_manager_lookup(1))
  have due: "\<not> due_close exact_seconds 600 (sample_time 5 0) sample_session"
      "due_warning exact_seconds 600 300 (sample_time 5 0) sample_session"
    by (simp_all add: due_close_def due_warning_def sample_session_gap sample_session_fields)
  have s1: "sent_to ?u ?M ?m1 = [warning_message ?M]"
    using due by (simp add: cleanup_tick_sent_to[OF dM] sample_manager_lookup)
  obtain s where l1: "map_of (sessions ?m1) ?u = Some s"
    using due by (simp add: cleanup_tick_lookup[OF dM] sample_manager_lookup)
  have d1: "distinct (map fst (sessions ?m1))"
    using dM by (rule cleanup_tick_distinct)
  have f1: "session_timeout ?m1 = 600" "inactivity_warning ?m1 = 300"
      "send_message_func ?m1 = Some Send_whatsapp_message_background"
    by (simp_all add: cleanup_tick_fields sample_manager_lookup)
  let ?s2 = "new_session (sample_time 6 0)
               \<lparr>total_messages = Some (meta_get (total_messages (meta s))),
                session_restarts = Some (meta_get (session_restarts (meta s)) + 1)\<rparr>"
  have l2: "map_of (sessions ?m2) ?u = Some ?s2"
    using l1 by (simp add: restart_session_def Let_def AList.update_conv')
  have d2: "distinct (map fst (sessions ?m2))"
    using apply_op_distinct[OF d1, of exact_seconds "Restart_session ?u (sample_time 6 0)"]
    by simp
  have f2: "session_timeout ?m2 = 600" "inactivity_warning ?m2 = 300"
      "send_message_func ?m2 = Some Send_whatsapp_message_background"
      "outbox ?m2 = outbox ?m1"
    using l1 f1 by (simp_all add: restart_session_def Let_def)
  have gap: "inactive_time exact_seconds (sample_time 11 0) ?s2 = 300"
    by (simp add: inactive_time_def exact_seconds_def to_micro_def sample_time_def
        new_session_def)
  have due2: "\<not> due_close exact_seconds 600 (sample_time 11 0) ?s2"
      "due_warning exact_seconds 600 300 (sample_time 11 0) ?s2"
    by (simp_all add: due_close_def due_warning_def gap) (simp_all add: new_session_def)
  have wm: "warning_message ?m2 = warning_message ?M"
    by (simp add: warning_message_def f2 sample_manager_lookup)
  have s3: "sent_to ?u ?m2 ?m3 = [warning_message ?M]"
    using due2 by (simp add: cleanup_tick_sent_to[OF d2] l2 f2 wm)
  have s13: "sent_to ?u ?m1 ?m3 = sent_to ?u ?m2 ?m3"
    by (simp add: sent_to_def f2)
  have e1: "\<exists>a. outbox ?m1 = outbox ?M @ a" by (rule cleanup_tick_extends)
  have e3: "\<exists>b. outbox ?m3 = outbox ?m1 @ b"
    using cleanup_tick_extends[of exact_seconds "sample_time 11 0" "\<lambda>u. sample_time 11 2" ?m2]
    by (simp add: f2)
  have "sent_to ?u ?M ?m3 = [warning_message ?M, warning_message ?M]"
    using sent_to_trans[OF e1 e3, of ?u] s1 s13 s3 by simp
  then show ?thesis by (simp add: warnings_to_def)
qed

text \<open>
  C2, amended. The manager is wired with its send function. Take a session whose warning
  flag is not set and any non-empty run of sweeper passes, each at a time when the
  session's inactivity, as the scan measures it, is at least the warning threshold and
  below the timeout, with no other operation in between. The passes together send the
  user exactly one message, the inactivity warning; afterwards the session is still there
  with its last activity unchanged and its warning flag set.

  And in any run of store operations and sweeper passes, from any state of the manager,
  that holds none of \<^verbatim>\<open>get_session\<close>, \<^verbatim>\<open>update_session\<close>, \<^verbatim>\<open>add_message_to_history\<close> and
  \<^verbatim>\<open>restart_session\<close> for the user and no load of a file with a record for the user, the
  user is sent at most one inactivity warning: a second warning comes only after one of
  these calls.
\<close>

theorem sweep_warns_once:
  "(distinct (map fst (sessions m)) \<and> map_of (sessions m) user_id = Some s
      \<and> \<not> inactivity_warning_sent s \<and> send_message_func m = Some f \<and> ticks \<noteq> []
      \<and> list_all (\<lambda>tk. real_of_int (inactivity_warning m)
                           \<le> inactive_time total_seconds (fst tk) s
                         \<and> inactive_time total_seconds (fst tk) s
                           < real_of_int (session_timeout m)) ticks
    \<longrightarrow> sent_to user_id m (cleanup_ticks total_seconds ticks m) = [warning_message m]
        \<and> (\<exists>s'. map_of (sessions (cleanup_ticks total_seconds ticks m)) user_id = Some s'
              \<and> last_activity s' = last_activity s \<and> inactivity_warning_sent s'))
   \<and> (distinct (map fst (sessions m)) \<and> list_all (\<lambda>op. \<not> rearms user_id op) ops
    \<longrightarrow> length (warnings_to user_id m (run_ops total_seconds ops m)) \<le> 1)"
proof (intro conjI impI)
  assume a: "distinct (map fst (sessions m)) \<and> map_of (sessions m) user_id = Some s
      \<and> \<not> inactivity_warning_sent s \<and> send_message_func m = Some f \<and> ticks \<noteq> []
      \<and> list_all (\<lambda>tk. real_of_int (inactivity_warning m)
                           \<le> inactive_time total_seconds (fst tk) s
                         \<and> inactive_time total_seconds (fst tk) s
                           < real_of_int (session_timeout m)) ticks"
  then obtain s' where s': "map_of (sessions (cleanup_ticks total_seconds ticks m)) user_id = Some s'"
      "last_activity s' = last_activity s"
      "inactivity_warning_sent s' = (inactivity_warning_sent s \<or> ticks \<noteq> [])"
      "sent_to user_id m (cleanup_ticks total_seconds ticks m) =
               (if send_message_func m = None \<or> inactivity_warning_sent s \<or> ticks = []
                then [] else [warning_message m])"
    using cleanup_ticks_in_window[of m user_id s total_seconds ticks] by blast
  show "sent_to user_id m (cleanup_ticks total_seconds ticks m) = [warning_message m]"
    using s'(4) a by simp
  show "\<exists>s'. map_of (sessions (cleanup_ticks total_seconds ticks m)) user_id = Some s'
              \<and> last_activity s' = last_activity s \<and> inactivity_warning_sent s'"
    using s' a by simp
next
  assume "distinct (map fst (sessions m)) \<and> list_all (\<lambda>op. \<not> rearms user_id op) ops"
  then show "length (warnings_to user_id m (run_ops total_seconds ops m)) \<le> 1"
    using run_ops_warns_once by blast
qed

theorem sweep_warns_once_witness:
  "sent_to ''5215550001'' (sample_manager (Some Send_whatsapp_message_background))
     (cleanup_ticks exact_seconds
        [(sample_time 5 0, \<lambda>u. sample_time 5 2), (sample_time 6 0, \<lambda>u. sample_time 6 2)]
        (sample_manager (Some Send_whatsapp_message_background)))
     = [warning_message (sample_manager (Some Send_whatsapp_message_background))]
   \<and> (\<exists>s'. map_of (sessions
          (cleanup_ticks exact_seconds
             [(sample_time 5 0, \<lambda>u. sample_time 5 2), (sample_time 6 0, \<lambda>u. sample_time 6 2)]
             (sample_manager (Some Send_whatsapp_message_background)))) ''5215550001'' = Some s'
        \<and> last_activity s' = sample_time 0 0 \<and> inactivity_warning_sent s')
   \<and> length (warnings_to ''5215550001'' (sample_manager (Some Send_whatsapp_message_background))
        (run_ops exact_seconds
           [Cleanup_tick (sample_time 5 0) (\<lambda>u. sample_time 5 2),
            Get_session ''5215550002'' (sample_time 5 30),
            Is_session_active ''5215550001'' (sample_time 5 40),
            Cleanup_tick (sample_time 6 0) (\<lambda>u. sample_time 6 2)]
           (sample_manager (Some Send_whatsapp_message_background)))) \<le> 1"
  using sweep_warns_once
          [where m = "sample_manager (Some Send_whatsapp_message_background)"
             and user_id = "''5215550001''" and s = sample_session
             and f = Send_whatsapp_message_background and total_seconds = exact_seconds
             and ticks = "[(sample_time 5 0, \<lambda>u. sample_time 5 2),
                           (sample_time 6 0, \<lambda>u. sample_time 6 2)]"
             and ops = "[Cleanup_tick (sample_time 5 0) (\<lambda>u. sample_time 5 2),
                         Get_session ''5215550002'' (sample_time 5 30),
                         Is_session_active ''5215550001'' (sample_time 5 40),
                         Cleanup_tick (sample_time 6 0) (\<lambda>u. sample_time 6 2)]"]
  by (simp add: sample_manager_lookup sample_session_fields sample_session_gap)

section \<open>Properties of the snapshots\<close>

subsection \<open>ISO timestamps\<close>

lemma length_pad: "length (pad w n) = w"
  by (induction w arbitrary: n) simp_all

lemma digit_of_digit: "d < 10 \<Longrightarrow> digit_of (char_of (48 + d)) = Some d"
  by (simp add: digit_of_def)

lemma number_from_snoc:
  "number_from acc (cs @ [c]) =
     (case number_from acc cs of
        None \<Rightarrow> None
      | Some a \<Rightarrow> (case digit_of c of None \<Rightarrow> None | Some k \<Rightarrow> Some (a * 10 + k)))"
  by (induction cs arbitrary: acc) (simp_all split: option.splits)

lemma number_from_pad: "number_from 0 (pad w n) = Some (n mod 10 ^ w)"
proof (induction w arbitrary: n)
  case 0
  then show ?case by simp
next
  case (Suc w)
  have "n mod (10 * 10 ^ w) = 10 * (n div 10 mod 10 ^ w) + n mod 10"
    by (rule mod_mult2_eq)
  then show ?case
    by (simp add: number_from_snoc Suc digit_of_digit)
qed

lemma field_pad:
  assumes "length pre = i" and "n < 10 ^ w"
  shows "field i w (pre @ pad w n @ post) = Some n"
  using assms by (simp add: field_def length_pad number_from_pad)

lemma isoformat_shape:
  "isoformat d =
     pad 4 (year d) @ CHR ''-'' # pad 2 (month d) @ CHR ''-'' # pad 2 (day d) @ CHR ''T'' #
     pad 2 (hour d) @ CHR '':'' # pad 2 (minute d) @ CHR '':'' # pad 2 (second d) @
     (if microsecond d = 0 then [] else CHR ''.'' # pad 6 (microsecond d))"
  by (simp add: isoformat_def)

lemma fromisoformat_isoformat:
  assumes "valid_datetime d"
  shows "fromisoformat (isoformat d) = Some d"
proof -
  define tl where
    "tl = (if microsecond d = 0 then [] else CHR ''.'' # pad 6 (microsecond d))"
  have s: "isoformat d =
     pad 4 (year d) @ CHR ''-'' # pad 2 (month d) @ CHR ''-'' # pad 2 (day d) @ CHR ''T'' #
     pad 2 (hour d) @ CHR '':'' # pad 2 (minute d) @ CHR '':'' # pad 2 (second d) @ tl"
    unfolding tl_def by (rule isoformat_shape)
  have b: "year d < 10 ^ 4" "month d < 10 ^ 2" "day d < 10 ^ 2" "hour d < 10 ^ 2"
    "minute d < 10 ^ 2" "second d < 10 ^ 2" "microsecond d < 10 ^ 6"
    using assms by (auto simp add: valid_datetime_def days_in_month_def split: if_splits)
  have len: "length (isoformat d) = 19 + length tl"
    by (simp add: s length_pad)
  have f1: "field 0 4 (isoformat d) = Some (year d)"
    using field_pad[of "[]" 0 "year d" 4] b(1) by (simp add: s)
  have f2: "field 5 2 (isoformat d) = Some (month d)"
    using field_pad[of "pad 4 (year d) @ ''-''" 5 "month d" 2] b(2)
    by (simp add: s length_pad)
  have f3: "field 8 2 (isoformat d) = Some (day d)"
    using field_pad[of "pad 4 (year d) @ CHR ''-'' # pad 2 (month d) @ ''-''" 8 "day d" 2] b(3)
    by (simp add: s length_pad)
  have f4: "field 11 2 (isoformat d) = Some (hour d)"
    using field_pad[of "pad 4 (year d) @ CHR ''-'' # pad 2 (month d) @ CHR ''-'' #
                        pad 2 (day d) @ ''T''" 11 "hour d" 2] b(4)
    by (simp add: s length_pad)
  have f5: "field 14 2 (isoformat d) = Some (minute d)"
    using field_pad[of "pad 4 (year d) @ CHR ''-'' # pad 2 (month d) @ CHR ''-'' #
                        pad 2 (day d) @ CHR ''T'' # pad 2 (hour d) @ '':''" 14 "minute d" 2] b(5)
    by (simp add: s length_pad)
  have f6: "field 17 2 (isoformat d) = Some (second d)"
    using field_pad[of "pad 4 (year d) @ CHR ''-'' # pad 2 (month d) @ CHR ''-'' #
                        pad 2 (day d) @ CHR ''T'' # pad 2 (hour d) @ CHR '':'' #
                        pad 2 (minute d) @ '':''" 17 "second d" 2] b(6)
    by (simp add: s length_pad)
  have seps: "isoformat d ! 4 = CHR ''-''" "isoformat d ! 7 = CHR ''-''"
    "isoformat d ! 13 = CHR '':''" "isoformat d ! 16 = CHR '':''"
    by (simp_all add: s nth_append length_pad nth_Cons')
  have rec: "\<lparr>year = year d, month = month d, day = day d, hour = hour d, minute = minute d,
              second = second d, microsecond = microsecond d\<rparr> = d"
    by simp
  show ?thesis
  proof (cases "microsecond d = 0")
    case True
    then have "length (isoformat d) = 19" using len by (simp add: tl_def)
    then have "fromisoformat (isoformat d) =
        (if valid_datetime \<lparr>year = year d, month = month d, day = day d, hour = hour d,
              minute = minute d, second = second d, microsecond = microsecond d\<rparr>
         then Some \<lparr>year = year d, month = month d, day = day d, hour = hour d,
              minute = minute d, second = second d, microsecond = microsecond d\<rparr>
         else None)"
      using seps f1 f2 f3 f4 f5 f6 True
      by (simp add: fromisoformat_def del: datetime.simps)
    then show ?thesis
      unfolding rec using assms by simp
  next
    case False
    then have tl: "tl = CHR ''.'' # pad 6 (microsecond d)" by (simp add: tl_def)
    have l26: "length (isoformat d) = 26" using len by (simp add: tl length_pad)
    have dot: "isoformat d ! 19 = CHR ''.''"
      by (simp add: s tl nth_append length_pad nth_Cons')
    have f7: "field 20 6 (isoformat d) = Some (microsecond d)"
      using field_pad[of "pad 4 (year d) @ CHR ''-'' # pad 2 (month d) @ CHR ''-'' #
                        pad 2 (day d) @ CHR ''T'' # pad 2 (hour d) @ CHR '':'' #
                        pad 2 (minute d) @ CHR '':'' # pad 2 (second d) @ ''.''" 20
                        "microsecond d" 6 "[]"] b(7)
      by (simp add: s tl length_pad)
    have "fromisoformat (isoformat d) =
        (if valid_datetime \<lparr>year = year d, month = month d, day = day d, hour = hour d,
              minute = minute d, second = second d, microsecond = microsecond d\<rparr>
         then Some \<lparr>year = year d, month = month d, day = day d, hour = hour d,
              minute = minute d, second = second d, microsecond = microsecond d\<rparr>
         else None)"
      using seps dot l26 f1 f2 f3 f4 f5 f6 f7
      by (simp add: fromisoformat_def del: datetime.simps)
    then show ?thesis
      unfolding rec using assms by simp
  qed
qed

subsection \<open>Saving and loading\<close>

lemma restore_serializable:
  assumes "valid_datetime (created_at s)" and "valid_datetime (last_activity s)"
  shows "restore_session (serializable_session s) = Some s"
  using assms
  by (simp add: restore_session_def serializable_session_def fromisoformat_isoformat)

lemma update_fresh_key:
  "u \<notin> set (map fst al) \<Longrightarrow> AList.update u v al = al @ [(u, v)]"
  by (induction al) auto

lemma load_entries_saved:
  assumes "valid_store ss" and "distinct (map fst ss)" and "set (map fst ss) \<inter> set (map fst acc) = {}"
  shows "load_entries (map (\<lambda>(user_id, s). (user_id, serializable_session s)) ss) acc = acc @ ss"
  using assms
proof (induction ss arbitrary: acc)
  case Nil
  then show ?case by simp
next
  case (Cons e ss)
  obtain u s where e: "e = (u, s)" by (cases e)
  have r: "restore_session (serializable_session s) = Some s"
    using Cons.prems(1) by (simp add: e valid_store_def restore_serializable)
  have fresh: "u \<notin> set (map fst acc)"
    using Cons.prems(3) by (auto simp add: e)
  have "load_entries (map (\<lambda>(user_id, s). (user_id, serializable_session s)) ss)
          (acc @ [(u, s)]) = (acc @ [(u, s)]) @ ss"
  proof (rule Cons.IH)
    show "valid_store ss" using Cons.prems(1) by (simp add: valid_store_def)
    show "distinct (map fst ss)" using Cons.prems(2) by simp
    show "set (map fst ss) \<inter> set (map fst (acc @ [(u, s)])) = {}"
      using Cons.prems(2,3) by (auto simp add: e)
  qed
  then show ?case
    by (simp add: e r update_fresh_key[OF fresh])
qed

lemma load_entries_same:
  assumes "valid_store ss" and "\<forall>e \<in> set ss. map_of acc (fst e) = Some (snd e)"
  shows "load_entries (map (\<lambda>(user_id, s). (user_id, serializable_session s)) ss) acc = acc"
  using assms
proof (induction ss)
  case Nil
  then show ?case by simp
next
  case (Cons e ss)
  obtain u s where e: "e = (u, s)" by (cases e)
  have r: "restore_session (serializable_session s) = Some s"
    using Cons.prems(1) by (simp add: e valid_store_def restore_serializable)
  have "map_of acc u = Some s" using Cons.prems(2) by (simp add: e)
  then have "AList.update u s acc = acc" by (rule AList.update_triv)
  moreover have "load_entries (map (\<lambda>(user_id, s). (user_id, serializable_session s)) ss) acc = acc"
    using Cons by (simp add: valid_store_def)
  ultimately show ?case by (simp add: e r)
qed

lemma sample_time_valid: "mi < 60 \<Longrightarrow> us < 1000000 \<Longrightarrow> valid_datetime (sample_time mi us)"
  by (simp add: valid_datetime_def sample_time_def days_in_month_def is_leap_def)

text \<open>
  C4. A store whose timestamps are \<^verbatim>\<open>datetime\<close> objects is reproduced by loading its own
  snapshot, both into a fresh manager and into the manager that was saved: the sessions
  are the same, in the same order, with every field equal. In particular each user of the
  store is a user of the result with the same state, the same history length and the
  same two timestamps, as the ISO text of a timestamp parses back to that timestamp
  (\<open>fromisoformat_isoformat\<close>).
\<close>

theorem snapshot_round_trip:
  assumes "distinct (map fst (sessions m))" and "valid_store (sessions m)"
  shows "sessions (load_sessions (Json_sessions (save_sessions m)) (init_manager timeout warning))
           = sessions m
       \<and> sessions (load_sessions (Json_sessions (save_sessions m)) m) = sessions m
       \<and> map fst (sessions (load_sessions (Json_sessions (save_sessions m))
                              (init_manager timeout warning))) = map fst (sessions m)
       \<and> (\<forall>user_id s. map_of (sessions m) user_id = Some s \<longrightarrow>
            (\<exists>s'. map_of (sessions (load_sessions (Json_sessions (save_sessions m))
                                      (init_manager timeout warning))) user_id = Some s'
                 \<and> state s' = state s
                 \<and> length (message_history s') = length (message_history s)
                 \<and> created_at s' = created_at s \<and> last_activity s' = last_activity s))"
proof -
  have 1: "sessions (load_sessions (Json_sessions (save_sessions m)) (init_manager timeout warning))
           = sessions m"
    using load_entries_saved[OF assms(2,1), of "[]"]
    by (simp add: load_sessions_def save_sessions_def init_manager_def)
  have "\<forall>e \<in> set (sessions m). map_of (sessions m) (fst e) = Some (snd e)"
    using assms(1) by simp
  then have 2: "sessions (load_sessions (Json_sessions (save_sessions m)) m) = sessions m"
    using load_entries_same[OF assms(2), of "sessions m"]
    by (simp add: load_sessions_def save_sessions_def)
  show ?thesis
    using 2 by (simp add: 1)
qed

theorem snapshot_round_trip_witness:
  "sessions (load_sessions (Json_sessions (save_sessions (sample_manager None)))
              (init_manager 600 300)) = [(''5215550001'', sample_session)]
   \<and> sessions (load_sessions (Json_sessions (save_sessions (sample_manager None)))
                (sample_manager None)) = [(''5215550001'', sample_session)]
   \<and> (\<exists>s'. map_of (sessions (load_sessions (Json_sessions (save_sessions (sample_manager None)))
                               (init_manager 600 300))) ''5215550001'' = Some s'
          \<and> state s' = ''AWAITING_QUERY'' \<and> length (message_history s') = 2
          \<and> created_at s' = sample_time 0 0 \<and> last_activity s' = sample_time 0 0)"
proof -
  have v: "valid_store (sessions (sample_manager None))"
    by (simp add: valid_store_def sample_manager_def sample_session_def sample_time_valid)
  have d: "distinct (map fst (sessions (sample_manager None)))"
    by (simp add: sample_manager_def)
  have s: "sessions (sample_manager None) = [(''5215550001'', sample_session)]"
    by (simp add: sample_manager_def)
  from snapshot_round_trip[OF d v, of 600 300]
  show ?thesis
    by (simp add: s sample_session_def)
qed

section \<open>Properties of the router\<close>

subsection \<open>Keywords\<close>

lemma starts_with_append: "starts_with kw (kw @ post)"
  by (induction kw) simp_all

lemma contains_infix: "contains kw (pre @ kw @ post)"
proof (induction pre)
  case Nil
  show ?case
  proof (cases "kw @ post")
    case Nil
    then show ?thesis by simp
  next
    case (Cons a list)
    then show ?thesis using starts_with_append[of kw post] by simp
  qed
next
  case (Cons c pre)
  then show ?case by simp
qed

lemma keyword_match_member:
  "keyword \<in> set kws \<Longrightarrow> contains keyword s \<Longrightarrow> keyword_match kws s"
  by (induction kws) auto

lemma commands_hold_no_keyword:
  "\<not> keyword_match ticket_keywords (ascii ''/restart'')"
  "\<not> keyword_match ticket_keywords (ascii ''/reiniciar'')"
  "\<not> keyword_match ticket_keywords (ascii ''hola'')"
  "\<not> keyword_match ticket_keywords (ascii ''hi'')"
  "\<not> keyword_match ticket_keywords (ascii ''hello'')"
  by code_simp+

subsection \<open>Text without markup\<close>

lemma remove_brackets_plain: "list_all plain t \<Longrightarrow> remove_brackets False t = t"
  by (induction t) (simp_all add: plain_def)

lemma bold_plain: "list_all plain t \<Longrightarrow> bold False t = t"
  by (induction t rule: bold.induct[where ?a0.0 = False]) (simp_all add: plain_def)

lemma links_plain: "list_all plain t \<Longrightarrow> links Outside t = t"
  by (induction t) (simp_all add: plain_def)

lemma filter_plain: "list_all plain t \<Longrightarrow> filter (\<lambda>c. \<not> (c \<le> 31 \<or> c = 127)) t = t"
  by (induction t) (auto simp add: plain_def)

lemma strip_plain:
  assumes "t \<noteq> []" and "\<not> py_space (hd t)" and "\<not> py_space (last t)"
  shows "strip t = t"
proof -
  have 1: "dropWhile py_space t = t"
    using assms(1,2) by (cases t) simp_all
  have "rev t \<noteq> []" "\<not> py_space (hd (rev t))"
    using assms(1,3) by (simp_all add: hd_rev)
  then have "dropWhile py_space (rev t) = rev t"
    by (cases "rev t") simp_all
  then show ?thesis by (simp add: strip_def 1)
qed

lemma process_text_plain:
  assumes "list_all plain t" and "t \<noteq> []" and "\<not> py_space (hd t)" and "\<not> py_space (last t)"
  shows "process_text_for_whatsapp t = t"
  using assms filter_plain[of t]
  by (simp add: process_text_for_whatsapp_def remove_brackets_plain strip_plain bold_plain
      links_plain)

lemma prompt_unchanged: "process_text_for_whatsapp ticket_subject_prompt = ticket_subject_prompt"
proof (rule process_text_plain)
  show "list_all plain ticket_subject_prompt"
    by (simp add: ticket_subject_prompt_def ascii_def plain_def)
  show "ticket_subject_prompt \<noteq> []"
    by (simp add: ticket_subject_prompt_def ascii_def)
  show "\<not> py_space (hd ticket_subject_prompt)"
    by (simp add: ticket_subject_prompt_def ascii_def py_space_def)
  show "\<not> py_space (last ticket_subject_prompt)"
    by (simp add: ticket_subject_prompt_def ascii_def py_space_def)
qed

subsection \<open>The support branch\<close>

lemma get_session_lookup:
  "map_of (sessions (get_session u t m)) u =
     Some (case map_of (sessions m) u of
             None \<Rightarrow> new_session t \<lparr>total_messages = Some 0, session_restarts = Some 0\<rparr>
           | Some s \<Rightarrow> touch t s)"
  by (simp add: get_session_def AList.update_conv' split: option.splits)

lemma get_session_outbox: "outbox (get_session u t m) = outbox m"
  by (simp add: get_session_def split: option.splits)

lemma add_message_to_history_outbox: "outbox (add_message_to_history u r b t m) = outbox m"
  by (simp add: add_message_to_history_def Let_def split: option.splits)

lemma update_session_outbox: "outbox (update_session u kw t m) = outbox m"
  by (simp add: update_session_def split: option.splits)

lemma add_message_to_history_lookup:
  "map_of (sessions m) u = Some s \<Longrightarrow>
   \<exists>s'. map_of (sessions (add_message_to_history u r b t m)) u = Some s'
       \<and> state s' = state s \<and> session_context s' = session_context s"
  by (simp add: add_message_to_history_def Let_def AList.update_conv' touch_def)

lemma update_session_lookup:
  "map_of (sessions m) u = Some s \<Longrightarrow>
   map_of (sessions (update_session u kw t m)) u = Some (touch t (fold apply_kwarg kw s))"
  by (simp add: update_session_def AList.update_conv')

text \<open>
  C7. Take an inbound text message whose lowered body contains a keyword of the list,
  handled while the sender either has no session or has one whose state is not
  TICKET_CREATION. After the handling the sender's session has state TICKET_CREATION and
  an empty context, and exactly one message was sent: the request for a ticket subject,
  to the sender.
\<close>

theorem support_intent_opens_ticket:
  assumes "message_type p = Some ''text''" and "text_body p = Some message_body"
    and "keyword \<in> set ticket_keywords" and "lower message_body = pre @ keyword @ post"
    and "\<forall>s. map_of (sessions m) (wa_id p) = Some s \<longrightarrow> state s \<noteq> ''TICKET_CREATION''"
  shows "\<exists>s'. map_of (sessions (process_whatsapp_message lower clock (Some p) m)) (wa_id p) = Some s'
           \<and> state s' = ''TICKET_CREATION'' \<and> session_context s' = []
           \<and> outbox (process_whatsapp_message lower clock (Some p) m)
               = outbox m @ [(wa_id p, ticket_subject_prompt)]"
proof -
  let ?u = "wa_id p"
  let ?m1 = "get_session ?u (clock 0) m"
  let ?m2 = "add_message_to_history ?u ''user'' message_body (clock 1) ?m1"
  let ?m3 = "update_session ?u [Set_state ''TICKET_CREATION'', Set_context []] (clock 2) ?m2"
  have intent: "keyword_match ticket_keywords (lower message_body)"
    using assms(3,4) keyword_match_member contains_infix by simp
  then have detect: "detect_ticket_intent lower message_body"
    by (simp add: detect_ticket_intent_def)
  have no_cmd: "lower message_body \<notin> set [ascii ''/restart'', ascii ''/reiniciar'']"
    "lower message_body \<notin> set [ascii ''hola'', ascii ''hi'', ascii ''hello'']"
    using intent commands_hold_no_keyword by auto
  obtain s1 where s1: "map_of (sessions ?m1) ?u = Some s1" "state s1 \<noteq> ''TICKET_CREATION''"
    using assms(5) get_session_lookup[of ?u "clock 0" m]
    by (cases "map_of (sessions m) ?u") (simp_all add: new_session_def touch_def)
  obtain s2 where s2: "map_of (sessions ?m2) ?u = Some s2" "state s2 = state s1"
    using add_message_to_history_lookup[OF s1(1)] by blast
  have run: "process_whatsapp_message lower clock (Some p) m
               = deliver_response ?u ticket_subject_prompt (clock 3) ?m3"
    using assms(1,2) no_cmd detect s2 s1(2)
    by (simp add: process_whatsapp_message_def Let_def del: set_simps)
  have s3: "map_of (sessions ?m3) ?u
              = Some (touch (clock 2) (s2\<lparr>state := ''TICKET_CREATION'', session_context := []\<rparr>))"
    using update_session_lookup[OF s2(1)] by simp
  obtain s4 where s4: "map_of (sessions (add_message_to_history ?u ''assistant''
                          ticket_subject_prompt (clock 3) ?m3)) ?u = Some s4"
      "state s4 = ''TICKET_CREATION''" "session_context s4 = []"
    using add_message_to_history_lookup
            [OF s3, of "''assistant''" ticket_subject_prompt "clock 3"]
    by (auto simp add: touch_def)
  show ?thesis
    unfolding run
    using s4
    by (simp add: deliver_response_def prompt_unchanged send_whatsapp_message_background_def
        add_message_to_history_outbox update_session_outbox get_session_outbox)
qed

theorem support_intent_opens_ticket_witness:
  "\<exists>s'. map_of (sessions (process_whatsapp_message ascii_lower (\<lambda>k. sample_time (5 + k) 0)
             (Some \<lparr>wa_id = ''5215550001'', profile_name = ascii ''Ana'',
                    message_type = Some ''text'',
                    text_body = Some (ascii ''Tengo un ERROR'')\<rparr>)
             (sample_manager None))) ''5215550001'' = Some s'
      \<and> state s' = ''TICKET_CREATION'' \<and> session_context s' = []
      \<and> outbox (process_whatsapp_message ascii_lower (\<lambda>k. sample_time (5 + k) 0)
             (Some \<lparr>wa_id = ''5215550001'', profile_name = ascii ''Ana'',
                    message_type = Some ''text'',
                    text_body = Some (ascii ''Tengo un ERROR'')\<rparr>)
             (sample_manager None))
          = [(''5215550001'', ticket_subject_prompt)]"
proof -
  have k: "ascii ''error'' \<in> set ticket_keywords"
    by (simp add: ticket_keywords_def)
  have l: "ascii_lower (ascii ''Tengo un ERROR'') = ascii ''tengo un '' @ ascii ''error'' @ []"
    by (simp add: ascii_lower_def ascii_def)
  have st: "\<forall>s. map_of (sessions (sample_manager None)) ''5215550001'' = Some s
              \<longrightarrow> state s \<noteq> ''TICKET_CREATION''"
    by (simp add: sample_manager_def sample_session_def)
  from support_intent_opens_ticket
         [of "\<lparr>wa_id = ''5215550001'', profile_name = ascii ''Ana'',
               message_type = Some ''text'', text_body = Some (ascii ''Tengo un ERROR'')\<rparr>"
             "ascii ''Tengo un ERROR''" "ascii ''error''" ascii_lower "ascii ''tengo un ''" "[]"
             "sample_manager None" "\<lambda>k. sample_time (5 + k) 0"]
  show ?thesis
    using k l st by (simp add: sample_manager_def)
qed

section \<open>Properties of the assistant response\<close>

lemma poll_run_times_out:
  assumes "max_wait_time \<le> time_at env n - start_time env"
    and "\<forall>k<n. time_at env k - start_time env < max_wait_time \<and> pending (retrieve env k)"
    and "k \<le> n"
  shows "poll_run env k = Some (Inr timeout_message)"
  using assms(3)
proof (induction "n - k" arbitrary: k)
  case 0
  then have "k = n" by simp
  then show ?case
    using assms(1) by (subst poll_run.simps) simp
next
  case (Suc d)
  then have lt: "k < n" and next_le: "Suc k \<le> n" and d: "d = n - Suc k" by simp_all
  have t: "time_at env k - start_time env < max_wait_time" and p: "pending (retrieve env k)"
    using assms(2) lt by simp_all
  obtain status where st: "retrieve env k = Run_status status"
      "status \<noteq> ''completed''" "status \<notin> set [''failed'', ''cancelled'', ''expired'']"
    using p by (cases "retrieve env k") (auto simp add: pending_def)
  have "poll_run env k = poll_run env (Suc k)"
    using t st by (subst poll_run.simps) simp
  then show ?case
    using Suc.hyps(1)[OF d next_le] by simp
qed

text \<open>
  C8. Take an execution that reaches the polling loop (the client, the thread, the
  message and the run were created and an assistant is configured), in which the wait has
  lasted the 60 seconds at the \<open>n\<close>-th test of the loop condition, and in which every poll
  before that returned a status other than completed, failed, cancelled and expired. The
  function returns, and what it returns is the timeout apology.
\<close>

theorem polling_timeout_apology:
  assumes "client_created env" and "truthy (assistant_id env)" and "thread_found env"
    and "message_created env" and "run_created env"
    and "max_wait_time \<le> time_at env n - start_time env"
    and "\<forall>k<n. time_at env k - start_time env < max_wait_time \<and> pending (retrieve env k)"
  shows "generate_assistant_response env = Some timeout_message"
  using assms(1-5) poll_run_times_out[OF assms(6,7), of 0]
  by (simp add: generate_assistant_response_def response_attempt_def)

theorem polling_timeout_apology_witness:
  "generate_assistant_response
     \<lparr>client_created = True, assistant_id = Some ''asst_1'', thread_found = True,
      message_created = True, run_created = True, start_time = 100,
      time_at = (\<lambda>k. 100 + 30 * real k), retrieve = (\<lambda>k. Run_status ''in_progress''),
      listing = Listed []\<rparr> = Some timeout_message"
proof -
  let ?env = "\<lparr>client_created = True, assistant_id = Some ''asst_1'', thread_found = True,
      message_created = True, run_created = True, start_time = 100,
      time_at = (\<lambda>k. 100 + 30 * real k), retrieve = (\<lambda>k. Run_status ''in_progress''),
      listing = Listed []\<rparr>"
  have 1: "max_wait_time \<le> time_at ?env 2 - start_time ?env"
    by (simp add: max_wait_time_def)
  have 2: "\<forall>k<2. time_at ?env k - start_time ?env < max_wait_time \<and> pending (retrieve ?env k)"
    by (simp add: max_wait_time_def pending_def)
  show ?thesis
    using polling_timeout_apology[of ?env 2] 1 2 by (simp add: truthy_def)
qed

end
